theory Spec2Isabelle
  imports Main "HOL-Library.Word"
begin

section \<open>JavaScript strings\<close>

text \<open>
  A JavaScript string is a sequence of 16-bit code units; \<open>length\<close>, \<open>substring\<close>,
  \<open>split\<close> and \<open>trim\<close> all work on code units. A string is therefore a list of
  16-bit words. \<open>ascii\<close> embeds an ASCII literal of the source.
\<close>

type_synonym unit16 = "16 word"
type_synonym jsstring = "unit16 list"

definition ascii :: "string \<Rightarrow> jsstring" where
  "ascii s = map of_char s"

definition LF :: unit16 where
  "LF = 0x0A"

text \<open>
  \<open>String.prototype.trim\<close> strips white space and line terminators from both ends:
  TAB, LF, VT, FF, CR, SPACE, NBSP, U+1680, U+2000..U+200A, U+2028, U+2029, U+202F,
  U+205F, U+3000 and U+FEFF.
\<close>

definition isWhiteSpace :: "unit16 \<Rightarrow> bool" where
  "isWhiteSpace c =
     (c \<in> set [0x09, 0x0A, 0x0B, 0x0C, 0x0D, 0x20, 0xA0, 0x1680, 0x2028, 0x2029,
               0x202F, 0x205F, 0x3000, 0xFEFF]
      \<or> (0x2000 \<le> c \<and> c \<le> 0x200A))"

definition trim :: "jsstring \<Rightarrow> jsstring" where
  "trim s = rev (dropWhile isWhiteSpace (rev (dropWhile isWhiteSpace s)))"

text \<open>
  \<open>s.split(sep)\<close> for a separator of one code unit: the pieces between the separators,
  \<open>[""]\<close> for the empty string.
\<close>

fun js_split :: "jsstring \<Rightarrow> unit16 \<Rightarrow> jsstring list" where
  "js_split [] sep = [[]]"
| "js_split (c # cs) sep =
     (if c = sep then [] # js_split cs sep
      else (case js_split cs sep of
              [] \<Rightarrow> [[c]]
            | l # ls \<Rightarrow> (c # l) # ls))"

text \<open>\<open>lines.join(sep)\<close>, used to state what a split loses.\<close>

fun js_join :: "jsstring list \<Rightarrow> unit16 \<Rightarrow> jsstring" where
  "js_join [] sep = []"
| "js_join [l] sep = l"
| "js_join (l # l' # ls) sep = l @ sep # js_join (l' # ls) sep"

section \<open>Chunker of the polling worker: \<open>splitMessage\<close>\<close>

text \<open>
  \<^verbatim>\<open>
  function splitMessage(content, maxLength = 2000) {
    if (content.length <= maxLength) { return [content]; }
    const chunks = [];
    const lines = content.split('\n');
    let currentChunk = '';
    for (const line of lines) {
      const safeLine = line.length > maxLength
        ? line.substring(0, maxLength - 3) + '...'
        : line;
      if ((currentChunk + '\n' + safeLine).length > maxLength) {
        if (currentChunk) { chunks.push(currentChunk.trim()); }
        currentChunk = safeLine;
      } else {
        currentChunk += (currentChunk ? '\n' : '') + safeLine;
      }
    }
    if (currentChunk) { chunks.push(currentChunk.trim()); }
    return chunks;
  }
  \<close>
  \<open>substring(0, n)\<close> clamps a negative \<open>n\<close> to 0, as the subtraction on \<open>nat\<close> does.
\<close>

definition safeLine :: "nat \<Rightarrow> jsstring \<Rightarrow> jsstring" where
  "safeLine maxLength line =
     (if length line > maxLength then take (maxLength - 3) line @ ascii ''...'' else line)"

text \<open>The statement \<^verbatim>\<open>if (currentChunk) { chunks.push(currentChunk.trim()); }\<close>.\<close>

definition pushTrimmed :: "jsstring list \<Rightarrow> jsstring \<Rightarrow> jsstring list" where
  "pushTrimmed chunks currentChunk =
     (if currentChunk \<noteq> [] then chunks @ [trim currentChunk] else chunks)"

fun splitLoop :: "nat \<Rightarrow> jsstring list \<Rightarrow> jsstring list \<Rightarrow> jsstring \<Rightarrow> jsstring list \<times> jsstring" where
  "splitLoop maxLength [] chunks currentChunk = (chunks, currentChunk)"
| "splitLoop maxLength (line # lines) chunks currentChunk =
     (if length (currentChunk @ [LF] @ safeLine maxLength line) > maxLength
      then splitLoop maxLength lines
             (pushTrimmed chunks currentChunk) (safeLine maxLength line)
      else splitLoop maxLength lines chunks
             (currentChunk @ (if currentChunk \<noteq> [] then [LF] else []) @ safeLine maxLength line))"

definition splitMessage :: "jsstring \<Rightarrow> nat \<Rightarrow> jsstring list" where
  "splitMessage content maxLength =
     (if length content \<le> maxLength then [content]
      else (case splitLoop maxLength (js_split content LF) [] [] of
              (chunks, currentChunk) \<Rightarrow> pushTrimmed chunks currentChunk))"

section \<open>Delivery\<close>

text \<open>
  \<open>fetch\<close> either rejects (a network failure, which throws at the \<open>await\<close>) or resolves
  with a response carrying a status; \<open>response.ok\<close> holds for the statuses 200..299.
  The remote side is a function from the index of the request, counted within one
  delivery, to what \<open>fetch\<close> does with it. The requests issued are recorded in order.
\<close>

datatype http_result = Rejected | Response nat

fun ok :: "http_result \<Rightarrow> bool" where
  "ok Rejected = False"
| "ok (Response status) = (200 \<le> status \<and> status \<le> 299)"

datatype request = GetGateway | CreateDM jsstring | PostMessage jsstring

datatype error =
    CannotDM
  | CreateDMFailed nat
  | SendFailed nat
  | NetworkError

subsection \<open>Polling worker: \<open>sendDirectMessage\<close>\<close>

text \<open>
  \<^verbatim>\<open>
  for (const chunk of chunks) {
    const sendResponse = await fetch(..., { method: 'POST', ..., body: JSON.stringify({ content: chunk }) });
    if (!sendResponse.ok) {
      const errorText = await sendResponse.text();
      throw new Error(`Failed to send message (${sendResponse.status}): ${errorText}`);
    }
  }
  \<close>
  The result is the list of requests issued and either the error thrown or normal return.
\<close>

fun sendChunks :: "(nat \<Rightarrow> http_result) \<Rightarrow> jsstring list \<Rightarrow> request list \<Rightarrow> request list \<times> (error + unit)" where
  "sendChunks respond [] reqs = (reqs, Inr ())"
| "sendChunks respond (chunk # chunks) reqs =
     (case respond (length reqs) of
        Rejected \<Rightarrow> (reqs @ [PostMessage chunk], Inl NetworkError)
      | Response status \<Rightarrow>
          if \<not> ok (Response status) then (reqs @ [PostMessage chunk], Inl (SendFailed status))
          else sendChunks respond chunks (reqs @ [PostMessage chunk]))"

definition sendDirectMessage :: "(nat \<Rightarrow> http_result) \<Rightarrow> jsstring \<Rightarrow> jsstring \<Rightarrow> request list \<times> (error + unit)" where
  "sendDirectMessage respond userId content =
     (case respond 0 of
        Rejected \<Rightarrow> ([CreateDM userId], Inl NetworkError)
      | Response status \<Rightarrow>
          if \<not> ok (Response status)
          then ([CreateDM userId], Inl (if status = 403 then CannotDM else CreateDMFailed status))
          else sendChunks respond (splitMessage content 2000) [CreateDM userId])"

subsection \<open>Gateway variants: \<open>sendDiscordMessage\<close> and \<open>sendLongMessage\<close>\<close>

text \<open>
  \<^verbatim>\<open>
  async sendDiscordMessage(channelId, content) {
    await fetch(`https://discord.com/api/v10/channels/${channelId}/messages`, { method: 'POST', ... });
  }
  \<close>
  The response is not looked at: only a rejected \<open>fetch\<close> throws.
\<close>

definition sendDiscordMessage :: "(nat \<Rightarrow> http_result) \<Rightarrow> request list \<Rightarrow> jsstring \<Rightarrow> request list \<times> (error + unit)" where
  "sendDiscordMessage respond reqs content =
     (case respond (length reqs) of
        Rejected \<Rightarrow> (reqs @ [PostMessage content], Inl NetworkError)
      | Response status \<Rightarrow> (reqs @ [PostMessage content], Inr ()))"

text \<open>
  \<^verbatim>\<open>
  for (const line of lines) {
    if ((currentChunk + line + '\n').length > maxLength) {
      if (currentChunk) {
        await this.sendDiscordMessage(channelId, currentChunk);
        currentChunk = '';
      }
      if (line.length > maxLength) {
        await this.sendDiscordMessage(channelId, line.substring(0, maxLength - 3) + '...');
      } else {
        currentChunk = line + '\n';
      }
    } else {
      currentChunk += line + '\n';
    }
  }
  if (currentChunk) { await this.sendDiscordMessage(channelId, currentChunk); }
  \<close>
\<close>

fun sendLongLoop :: "(nat \<Rightarrow> http_result) \<Rightarrow> nat \<Rightarrow> jsstring list \<Rightarrow> jsstring \<Rightarrow> request list \<Rightarrow> request list \<times> (error + jsstring)" where
  "sendLongLoop respond maxLength [] currentChunk reqs = (reqs, Inr currentChunk)"
| "sendLongLoop respond maxLength (line # lines) currentChunk reqs =
     (if length (currentChunk @ line @ [LF]) > maxLength then
        (case (if currentChunk \<noteq> [] then sendDiscordMessage respond reqs currentChunk
               else (reqs, Inr ())) of
           (reqs1, Inl e) \<Rightarrow> (reqs1, Inl e)
         | (reqs1, Inr u) \<Rightarrow>
             if length line > maxLength then
               (case sendDiscordMessage respond reqs1 (take (maxLength - 3) line @ ascii ''...'') of
                  (reqs2, Inl e) \<Rightarrow> (reqs2, Inl e)
                | (reqs2, Inr u') \<Rightarrow> sendLongLoop respond maxLength lines [] reqs2)
             else sendLongLoop respond maxLength lines (line @ [LF]) reqs1)
      else sendLongLoop respond maxLength lines (currentChunk @ line @ [LF]) reqs)"

definition sendLongMessage :: "(nat \<Rightarrow> http_result) \<Rightarrow> request list \<Rightarrow> jsstring \<Rightarrow> request list \<times> (error + unit)" where
  "sendLongMessage respond reqs content =
     (let maxLength = 2000 in
      if length content \<le> maxLength then sendDiscordMessage respond reqs content
      else (case sendLongLoop respond maxLength (js_split content LF) [] reqs of
              (reqs1, Inl e) \<Rightarrow> (reqs1, Inl e)
            | (reqs1, Inr currentChunk) \<Rightarrow>
                if currentChunk \<noteq> [] then sendDiscordMessage respond reqs1 currentChunk
                else (reqs1, Inr ())))"

section \<open>Configuration and stored messages\<close>

text \<open>
  The environment of the worker. \<open>SUMMARY_INTERVAL\<close> and \<open>SUMMARY_TIME_HOUR\<close> are only
  ever read through \<open>parseInt\<close>; the fields hold that result, \<open>None\<close> for \<open>NaN\<close>
  (a missing or non-numeric setting). Numbers are integers of any size: the clock is in
  whole milliseconds and the products stay exact in a double for every realistic setting.
\<close>

record env =
  DISCORD_TOKEN :: jsstring
  CHANNEL_ID :: jsstring
  USER_ID :: jsstring
  SUMMARY_INTERVAL :: "int option"
  SUMMARY_TIME_HOUR :: "int option"

text \<open>The \<open>messageData\<close> object that the bot stores for a message.\<close>

record messageData =
  md_id :: jsstring
  md_content :: jsstring
  md_author :: jsstring
  md_authorId :: jsstring
  md_timestamp :: int
  md_channelId :: jsstring

text \<open>The body of a \<open>MESSAGE_CREATE\<close> dispatch, as far as the bot reads it.\<close>

record gateway_message =
  gm_id :: jsstring
  gm_channel_id :: jsstring
  gm_content :: jsstring
  gm_author_username :: jsstring
  gm_author_id :: jsstring
  gm_author_bot :: bool

text \<open>
  \<^verbatim>\<open>
  const intervalMs = intervalHours * 60 * 60 * 1000;
  const cutoffTime = now - intervalMs;
  ... filter(msg => msg.timestamp >= cutoffTime)
  \<close>
  A comparison with \<open>NaN\<close> is false.
\<close>

definition cutoffTime :: "int \<Rightarrow> int option \<Rightarrow> int option" where
  "cutoffTime now intervalHours = map_option (\<lambda>h. now - h * 60 * 60 * 1000) intervalHours"

definition notBefore :: "int option \<Rightarrow> messageData \<Rightarrow> bool" where
  "notBefore cutoff msg = (case cutoff of None \<Rightarrow> False | Some c \<Rightarrow> md_timestamp msg \<ge> c)"

section \<open>Digest renderer of the gateway and local variants: \<open>formatSummary\<close>\<close>

text \<open>
  Template literals print a number in decimal (\<open>NaN\<close> for \<open>NaN\<close>).
  \<open>toLocaleTimeString\<close> depends on the locale data and time zone of the runtime and is a
  parameter.
\<close>

function showNat :: "nat \<Rightarrow> jsstring" where
  "showNat n = (if n < 10 then [0x30 + of_nat n] else showNat (n div 10) @ [0x30 + of_nat (n mod 10)])"
  by pat_completeness auto
termination
  by (relation "measure id") auto

definition showNumber :: "int option \<Rightarrow> jsstring" where
  "showNumber x =
     (case x of
        None \<Rightarrow> ascii ''NaN''
      | Some i \<Rightarrow> if i < 0 then ascii ''-'' @ showNat (nat (- i)) else showNat (nat i))"

text \<open>
  \<^verbatim>\<open>
  let content = msg.content;
  if (content.length > 100) { content = content.substring(0, 97) + '...'; }
  if (!content.trim()) { content = '_[attachment or embed]_'; }
  body += `\<bullet> **${msg.author}** (${timestamp}): ${content}\n`;
  \<close>
  The bullet is U+2022 and the chart emoji of the header is the surrogate pair D83D DCCA.
  The copy of the method in the keep-alive class has these two literals in a damaged
  encoding in its source bytes; everything else is the same in all copies.
\<close>

definition lineContent :: "jsstring \<Rightarrow> jsstring" where
  "lineContent c =
     (let content = (if length c > 100 then take 97 c @ ascii ''...'' else c)
      in if trim content = [] then ascii ''_[attachment or embed]_'' else content)"

definition formatLine :: "(int \<Rightarrow> jsstring) \<Rightarrow> messageData \<Rightarrow> jsstring" where
  "formatLine toLocaleTimeString msg =
     [0x2022] @ ascii '' **'' @ md_author msg @ ascii ''** ('' @ toLocaleTimeString (md_timestamp msg)
       @ ascii ''): '' @ lineContent (md_content msg) @ [LF]"

definition formatSummary :: "(int \<Rightarrow> jsstring) \<Rightarrow> messageData list \<Rightarrow> int option \<Rightarrow> jsstring" where
  "formatSummary toLocaleTimeString messages hours =
     (let header = [0xD83D, 0xDCCA] @ ascii '' **Message Summary** (Last '' @ showNumber hours
                     @ ascii '' hours)'' @ [LF];
          footer = [LF, LF] @ ascii ''_Total: '' @ showNat (length messages) @ ascii '' message''
                     @ (if length messages \<noteq> 1 then ascii ''s'' else []) @ ascii ''_'';
          body = foldl (\<lambda>body msg. body @ formatLine toLocaleTimeString msg) [] messages
      in header @ [LF] @ body @ footer)"

section \<open>The Durable Object \<open>DiscordBot\<close>\<close>

text \<open>
  The fields of the object, the key \<open>messages\<close> of its storage, and the effects it has
  had on the outside, in order: frames sent on the socket, timers started and cleared,
  alarms set, requests issued, sockets opened, errors logged. A running timer is
  represented by its delay.
\<close>

datatype readyState = CONNECTING | OPEN | CLOSING | CLOSED

datatype payload =
    Heartbeat "int option"
  | Identify jsstring nat

datatype effect =
    WsSend payload
  | NewWebSocket
  | WsClose
  | SetInterval nat
  | ClearInterval
  | SetTimeout nat
  | ClearTimeout
  | SetAlarm int
  | Http request
  | ConsoleError error

record bot =
  ws :: "readyState option"
  heartbeatInterval :: "nat option"
  sessionId :: "jsstring option"
  sequenceNumber :: "int option"
  messageStore :: "messageData list"
  reconnectAttempts :: nat
  isConnecting :: bool
  reconnectTimeout :: "nat option"
  storage_messages :: "messageData list option"
  effects :: "effect list"

definition constructor :: bot where
  "constructor = \<lparr> ws = None, heartbeatInterval = None, sessionId = None, sequenceNumber = None,
     messageStore = [], reconnectAttempts = 0, isConnecting = False, reconnectTimeout = None,
     storage_messages = None, effects = [] \<rparr>"

definition emit :: "effect list \<Rightarrow> 'a bot_scheme \<Rightarrow> 'a bot_scheme" where
  "emit es st = st\<lparr> effects := effects st @ es \<rparr>"

subsection \<open>Retention buffer\<close>

text \<open>
  \<^verbatim>\<open>
  async handleMessageCreate(message) {
    if (message.channel_id !== this.env.CHANNEL_ID) { return; }
    if (message.author.bot) { return; }
    const messageData = { id: message.id, content: message.content, author: message.author.username,
      authorId: message.author.id, timestamp: Date.now(), channelId: message.channel_id };
    this.messageStore.push(messageData);
    const intervalMs = parseInt(this.env.SUMMARY_INTERVAL) * 60 * 60 * 1000;
    const cutoffTime = Date.now() - intervalMs;
    this.messageStore = this.messageStore.filter(msg => msg.timestamp >= cutoffTime);
    await this.state.storage.put('messages', this.messageStore);
  }
  \<close>
  \<open>stampNow\<close> and \<open>pruneNow\<close> are what the two calls of \<open>Date.now()\<close> return.
\<close>

definition handleMessageCreate :: "env \<Rightarrow> gateway_message \<Rightarrow> int \<Rightarrow> int \<Rightarrow> 'a bot_scheme \<Rightarrow> 'a bot_scheme" where
  "handleMessageCreate e message stampNow pruneNow st =
     (if gm_channel_id message \<noteq> CHANNEL_ID e then st
      else if gm_author_bot message then st
      else
        (let messageData = \<lparr> md_id = gm_id message, md_content = gm_content message,
                              md_author = gm_author_username message, md_authorId = gm_author_id message,
                              md_timestamp = stampNow, md_channelId = gm_channel_id message \<rparr>;
             pushed = messageStore st @ [messageData];
             kept = filter (notBefore (cutoffTime pruneNow (SUMMARY_INTERVAL e))) pushed
         in st\<lparr> messageStore := kept, storage_messages := Some kept \<rparr>))"

text \<open>
  The window selection of \<open>sendSummary\<close>:
  \<^verbatim>\<open>
  this.messageStore = (await this.state.storage.get('messages')) || [];
  const intervalHours = parseInt(this.env.SUMMARY_INTERVAL);
  const now = Date.now();
  const intervalMs = intervalHours * 60 * 60 * 1000;
  const cutoffTime = now - intervalMs;
  const recentMessages = this.messageStore.filter(msg => msg.timestamp >= cutoffTime);
  \<close>
\<close>

definition loadMessages :: "'a bot_scheme \<Rightarrow> messageData list" where
  "loadMessages st = (case storage_messages st of None \<Rightarrow> [] | Some ms \<Rightarrow> ms)"

definition recentMessages :: "env \<Rightarrow> int \<Rightarrow> messageData list \<Rightarrow> messageData list" where
  "recentMessages e now store = filter (notBefore (cutoffTime now (SUMMARY_INTERVAL e))) store"

text \<open>
  The rest of \<open>sendSummary\<close>: nothing is sent for an empty window; otherwise the digest is
  rendered, the direct channel is requested and the digest is sent. The whole body is in
  \<^verbatim>\<open>try { ... } catch (error) { console.error('Error sending summary:', error); }\<close>,
  so the method always returns normally.
\<close>

definition sendSummary :: "env \<Rightarrow> (int \<Rightarrow> jsstring) \<Rightarrow> (nat \<Rightarrow> http_result) \<Rightarrow> int \<Rightarrow> 'a bot_scheme \<Rightarrow> 'a bot_scheme" where
  "sendSummary e toLocaleTimeString respond now st =
     (let st1 = st\<lparr> messageStore := loadMessages st \<rparr>;
          recent = recentMessages e now (messageStore st1)
      in if recent = [] then st1
         else
           (let summary = formatSummary toLocaleTimeString recent (SUMMARY_INTERVAL e)
            in case respond 0 of
                 Rejected \<Rightarrow> emit [Http (CreateDM (USER_ID e)), ConsoleError NetworkError] st1
               | Response status \<Rightarrow>
                   (case sendLongMessage respond [CreateDM (USER_ID e)] summary of
                      (reqs, Inl err) \<Rightarrow> emit (map Http reqs @ [ConsoleError err]) st1
                    | (reqs, Inr u) \<Rightarrow> emit (map Http reqs) st1)))"

subsection \<open>Scheduler\<close>

text \<open>
  Times are milliseconds since the epoch, in UTC. \<open>setUTCHours(h, 0, 0, 0)\<close> keeps the UTC
  day and sets the time of day; \<open>setUTCDate(getUTCDate() + 1)\<close> adds one day.
\<close>

definition msPerHour :: int where
  "msPerHour = 3600000"

definition msPerDay :: int where
  "msPerDay = 86400000"

definition utcDayStart :: "int \<Rightarrow> int" where
  "utcDayStart t = (t div msPerDay) * msPerDay"

definition setUTCHours :: "int \<Rightarrow> int \<Rightarrow> int" where
  "setUTCHours t h = utcDayStart t + h * msPerHour"

definition getUTCHours :: "int \<Rightarrow> int" where
  "getUTCHours t = (t mod msPerDay) div msPerHour"

definition getUTCMinutes :: "int \<Rightarrow> int" where
  "getUTCMinutes t = (t mod msPerHour) div 60000"

text \<open>\<^verbatim>\<open>parseInt(this.env.SUMMARY_TIME_HOUR) || 9\<close>: \<open>NaN\<close> and \<open>0\<close> are falsy.\<close>

definition summaryHour :: "env \<Rightarrow> int" where
  "summaryHour e = (case SUMMARY_TIME_HOUR e of None \<Rightarrow> 9 | Some h \<Rightarrow> if h = 0 then 9 else h)"

text \<open>
  \<^verbatim>\<open>
  async scheduleNextSummary() {
    const summaryHour = parseInt(this.env.SUMMARY_TIME_HOUR) || 9;
    const now = new Date();
    const next = new Date();
    next.setUTCHours(summaryHour, 0, 0, 0);
    if (next <= now) { next.setUTCDate(next.getUTCDate() + 1); }
    await this.state.storage.setAlarm(next);
  }
  \<close>
  \<open>now\<close> and \<open>next0\<close> are what the two \<open>new Date()\<close> read from the clock.
\<close>

definition nextSummary :: "env \<Rightarrow> int \<Rightarrow> int \<Rightarrow> int" where
  "nextSummary e now next0 =
     (let next = setUTCHours next0 (summaryHour e)
      in if next \<le> now then next + msPerDay else next)"

definition scheduleNextSummary :: "env \<Rightarrow> int \<Rightarrow> int \<Rightarrow> 'a bot_scheme \<Rightarrow> 'a bot_scheme" where
  "scheduleNextSummary e now next0 st = emit [SetAlarm (nextSummary e now next0)] st"

subsection \<open>Gateway frames\<close>

text \<open>
  A frame \<open>{ op, t, s, d }\<close>. \<open>f_s = None\<close> is \<open>null\<close>. Of the data \<open>d\<close> the bot reads
  \<open>heartbeat_interval\<close>, \<open>session_id\<close> or the message; a field that is not there is
  \<open>undefined\<close>, which \<open>setInterval\<close> takes as the delay 0.
\<close>

datatype frame_data =
    DHello nat
  | DReady jsstring
  | DMessage gateway_message
  | DOther

record frame =
  f_op :: int
  f_t :: "jsstring option"
  f_s :: "int option"
  f_d :: frame_data

fun heartbeat_interval :: "frame_data \<Rightarrow> nat" where
  "heartbeat_interval (DHello n) = n"
| "heartbeat_interval _ = 0"

fun session_id :: "frame_data \<Rightarrow> jsstring option" where
  "session_id (DReady sid) = Some sid"
| "session_id _ = None"

text \<open>
  \<^verbatim>\<open>
  startHeartbeat(interval) {
    if (this.heartbeatInterval) { clearInterval(this.heartbeatInterval); }
    this.heartbeatInterval = setInterval(() => { this.sendHeartbeat(); }, interval);
  }
  sendHeartbeat() {
    if (this.ws && this.ws.readyState === WebSocket.OPEN) {
      this.ws.send(JSON.stringify({ op: 1, d: this.sequenceNumber }));
    }
  }
  async identify() {
    if (!this.ws || this.ws.readyState !== WebSocket.OPEN) return;
    this.ws.send(JSON.stringify({ op: 2, d: { token: this.env.DISCORD_TOKEN, intents: 513, properties: {...} } }));
  }
  \<close>
\<close>

definition startHeartbeat :: "nat \<Rightarrow> 'a bot_scheme \<Rightarrow> 'a bot_scheme" where
  "startHeartbeat interval st =
     (let st1 = (if heartbeatInterval st \<noteq> None then emit [ClearInterval] st else st)
      in (emit [SetInterval interval] st1)\<lparr> heartbeatInterval := Some interval \<rparr>)"

definition sendHeartbeat :: "'a bot_scheme \<Rightarrow> 'a bot_scheme" where
  "sendHeartbeat st =
     (if ws st = Some OPEN then emit [WsSend (Heartbeat (sequenceNumber st))] st else st)"

definition identify :: "env \<Rightarrow> 'a bot_scheme \<Rightarrow> 'a bot_scheme" where
  "identify e st =
     (if ws st \<noteq> Some OPEN then st else emit [WsSend (Identify (DISCORD_TOKEN e) 513)] st)"

text \<open>
  \<^verbatim>\<open>
  async handleEvent(eventType, data) {
    switch (eventType) {
      case 'READY': this.sessionId = data.session_id; break;
      case 'MESSAGE_CREATE': await this.handleMessageCreate(data); break;
    }
  }
  \<close>
  Data without message fields has an \<open>undefined\<close> channel, which never is the
  configured one.
\<close>

definition handleEvent :: "env \<Rightarrow> jsstring option \<Rightarrow> frame_data \<Rightarrow> int \<Rightarrow> int \<Rightarrow> 'a bot_scheme \<Rightarrow> 'a bot_scheme" where
  "handleEvent e eventType data now1 now2 st =
     (if eventType = Some (ascii ''READY'') then st\<lparr> sessionId := session_id data \<rparr>
      else if eventType = Some (ascii ''MESSAGE_CREATE'') then
        (case data of DMessage message \<Rightarrow> handleMessageCreate e message now1 now2 st | _ \<Rightarrow> st)
      else st)"

text \<open>
  \<^verbatim>\<open>
  async handleGatewayMessage(data) {
    const { op, t, s, d } = data;
    if (s !== null) { this.sequenceNumber = s; }
    switch (op) {
      case 10: this.startHeartbeat(d.heartbeat_interval); await this.identify();
               await this.scheduleNextSummary(); break;
      case 0:  await this.handleEvent(t, d); break;
      case 1:  this.sendHeartbeat(); break;
      case 11: console.log('Heartbeat acknowledged'); break;
      default: console.log('Unknown opcode:', op);
    }
  }
  \<close>
  \<open>now1\<close> and \<open>now2\<close> are the first and the second reading of the clock while the frame
  is handled; the branches for \<open>op\<close> 10 and 0 read it twice, the others do not read it.
\<close>

definition handleGatewayMessage :: "env \<Rightarrow> frame \<Rightarrow> int \<Rightarrow> int \<Rightarrow> 'a bot_scheme \<Rightarrow> 'a bot_scheme" where
  "handleGatewayMessage e data now1 now2 st =
     (let st1 = (case f_s data of None \<Rightarrow> st | Some s \<Rightarrow> st\<lparr> sequenceNumber := Some s \<rparr>)
      in if f_op data = 10 then
           scheduleNextSummary e now1 now2 (identify e (startHeartbeat (heartbeat_interval (f_d data)) st1))
         else if f_op data = 0 then handleEvent e (f_t data) (f_d data) now1 now2 st1
         else if f_op data = 1 then sendHeartbeat st1
         else st1)"

subsection \<open>Connection and reconnection (the variant that reconnects from the close handler)\<close>

text \<open>
  \<^verbatim>\<open>
  cleanup() {
    if (this.heartbeatInterval) { clearInterval(this.heartbeatInterval); this.heartbeatInterval = null; }
    if (this.reconnectTimeout) { clearTimeout(this.reconnectTimeout); this.reconnectTimeout = null; }
    this.ws = null;
    this.isConnecting = false;
  }
  \<close>
\<close>

definition cleanup :: "'a bot_scheme \<Rightarrow> 'a bot_scheme" where
  "cleanup st =
     (let st1 = (if heartbeatInterval st \<noteq> None
                 then (emit [ClearInterval] st)\<lparr> heartbeatInterval := None \<rparr> else st);
          st2 = (if reconnectTimeout st1 \<noteq> None
                 then (emit [ClearTimeout] st1)\<lparr> reconnectTimeout := None \<rparr> else st1)
      in st2\<lparr> ws := None, isConnecting := False \<rparr>)"

text \<open>
  \<^verbatim>\<open>
  this.reconnectAttempts++;
  const delay = Math.min(5000 * Math.pow(2, this.reconnectAttempts - 1), 60000);
  this.reconnectTimeout = setTimeout(() => this.connectToGateway(), delay);
  \<close>
  The counter has just been incremented, so the exponent is not negative.
\<close>

definition backoffDelay :: "nat \<Rightarrow> nat" where
  "backoffDelay attempts = min (5000 * 2 ^ (attempts - 1)) 60000"

definition scheduleReconnect :: "'a bot_scheme \<Rightarrow> 'a bot_scheme" where
  "scheduleReconnect st =
     (let st1 = st\<lparr> reconnectAttempts := reconnectAttempts st + 1 \<rparr>;
          delay = backoffDelay (reconnectAttempts st1)
      in (emit [SetTimeout delay] st1)\<lparr> reconnectTimeout := Some delay \<rparr>)"

text \<open>
  \<^verbatim>\<open>
  async connectToGateway() {
    if (this.ws) { return; }
    if (this.isConnecting) { return; }
    this.isConnecting = true;
    try {
      const gatewayResponse = await fetch('https://discord.com/api/v10/gateway/bot', ...);
      const gatewayData = await gatewayResponse.json();
      this.ws = new WebSocket(`${gatewayData.url}/?v=10&encoding=json`);
      this.ws.addEventListener('open', ...);  ... 'message' ... 'close' ... 'error'
    } catch (error) {
      this.isConnecting = false;
      this.reconnectAttempts++; ... this.reconnectTimeout = setTimeout(() => this.connectToGateway(), delay);
    }
  }
  \<close>
  \<open>gatewayOk\<close> says that nothing in the \<open>try\<close> block threw.
\<close>

definition connectToGateway :: "bool \<Rightarrow> 'a bot_scheme \<Rightarrow> 'a bot_scheme" where
  "connectToGateway gatewayOk st =
     (if ws st \<noteq> None then st
      else if isConnecting st then st
      else
        (let st1 = emit [Http GetGateway] (st\<lparr> isConnecting := True \<rparr>)
         in if gatewayOk then (emit [NewWebSocket] st1)\<lparr> ws := Some CONNECTING \<rparr>
            else scheduleReconnect (st1\<lparr> isConnecting := False \<rparr>)))"

text \<open>
  The listeners of the socket. Before \<open>open\<close> is dispatched the socket is \<open>OPEN\<close>.
  \<^verbatim>\<open>
  'open':  this.reconnectAttempts = 0; // Reset on successful connection
           this.isConnecting = false;
  'close': this.cleanup(); this.reconnectAttempts++; ... setTimeout(() => this.connectToGateway(), delay);
  'error': this.isConnecting = false;
  \<close>
\<close>

definition onOpen :: "'a bot_scheme \<Rightarrow> 'a bot_scheme" where
  "onOpen st =
     st\<lparr> ws := (if ws st = None then None else Some OPEN), reconnectAttempts := 0, isConnecting := False \<rparr>"

definition onClose :: "'a bot_scheme \<Rightarrow> 'a bot_scheme" where
  "onClose st = scheduleReconnect (cleanup st)"

definition onError :: "'a bot_scheme \<Rightarrow> 'a bot_scheme" where
  "onError st = st\<lparr> isConnecting := False \<rparr>"

text \<open>
  \<^verbatim>\<open>
  async alarm() {
    await this.sendSummary();
    await this.scheduleNextSummary();
  }
  \<close>
\<close>

definition alarm :: "env \<Rightarrow> (int \<Rightarrow> jsstring) \<Rightarrow> (nat \<Rightarrow> http_result) \<Rightarrow> int \<Rightarrow> int \<Rightarrow> int \<Rightarrow> 'a bot_scheme \<Rightarrow> 'a bot_scheme" where
  "alarm e toLocaleTimeString respond now1 now2 now3 st =
     scheduleNextSummary e now2 now3 (sendSummary e toLocaleTimeString respond now1 st)"

text \<open>
  What can happen to the object: a request for \<open>/start\<close> and the reconnect timer, unless
  it was cleared, both call \<open>connectToGateway\<close>; the socket opens, delivers a frame, fails
  or closes; the heartbeat timer ticks while it is running; the alarm fires.
\<close>

datatype event =
    Start bool
  | ReconnectTimer bool
  | WsOpened
  | WsMessage frame int int
  | WsErrored
  | WsClosed
  | HeartbeatTick
  | Alarm "int \<Rightarrow> jsstring" "nat \<Rightarrow> http_result" int int int

fun step :: "env \<Rightarrow> 'a bot_scheme \<Rightarrow> event \<Rightarrow> 'a bot_scheme" where
  "step e st (Start gatewayOk) = connectToGateway gatewayOk st"
| "step e st (ReconnectTimer gatewayOk) =
     (if reconnectTimeout st = None then st else connectToGateway gatewayOk st)"
| "step e st WsOpened = onOpen st"
| "step e st (WsMessage data now1 now2) = handleGatewayMessage e data now1 now2 st"
| "step e st WsErrored = onError st"
| "step e st WsClosed = onClose st"
| "step e st HeartbeatTick = (if heartbeatInterval st = None then st else sendHeartbeat st)"
| "step e st (Alarm toLocaleTimeString respond now1 now2 now3) =
     alarm e toLocaleTimeString respond now1 now2 now3 st"

definition run :: "env \<Rightarrow> 'a bot_scheme \<Rightarrow> event list \<Rightarrow> 'a bot_scheme" where
  "run e st evs = foldl (step e) st evs"

text \<open>The effects that a handler added, and the reconnection delays among effects.\<close>

definition newEffects :: "'a bot_scheme \<Rightarrow> 'a bot_scheme \<Rightarrow> effect list" where
  "newEffects st st' = drop (length (effects st)) (effects st')"

fun reconnectDelays :: "effect list \<Rightarrow> nat list" where
  "reconnectDelays [] = []"
| "reconnectDelays (SetTimeout delay # es) = delay # reconnectDelays es"
| "reconnectDelays (ef # es) = reconnectDelays es"

fun isClose :: "event \<Rightarrow> bool" where
  "isClose WsClosed = True"
| "isClose ev = False"

text \<open>
  Whether the heartbeat timer runs after some effects, and whether every identify frame
  among them was sent while it ran.
\<close>

fun timerRunning :: "bool \<Rightarrow> effect list \<Rightarrow> bool" where
  "timerRunning r [] = r"
| "timerRunning r (SetInterval n # es) = timerRunning True es"
| "timerRunning r (ClearInterval # es) = timerRunning False es"
| "timerRunning r (ef # es) = timerRunning r es"

fun identifyGuarded :: "bool \<Rightarrow> effect list \<Rightarrow> bool" where
  "identifyGuarded r [] = True"
| "identifyGuarded r (WsSend (Identify token intents) # es) = (r \<and> identifyGuarded r es)"
| "identifyGuarded r (ef # es) = identifyGuarded (timerRunning r [ef]) es"

section \<open>The variant that reconnects from a keep-alive alarm\<close>

text \<open>
  The other \<open>DiscordBot\<close> class has the same frame handling, renderer and delivery, and
  differs in \<open>connectToGateway\<close>, the close listener and \<open>alarm\<close>. Of its additional
  fields the ones these methods read or write are modelled, and the storage key
  \<open>botEnabled\<close>.
\<close>

record kbot = bot +
  botEnabled :: bool
  testMode :: bool
  testSummarySent :: bool
  storage_botEnabled :: "bool option"

definition constructor_ka :: kbot where
  "constructor_ka = bot.extend constructor
     (kbot.fields False False False None)"

text \<open>
  \<^verbatim>\<open>
  async connectToGateway() {
    if (!this.botEnabled) { return; }
    if (this.ws && this.ws.readyState === WebSocket.OPEN) { return; }
    if (this.isConnecting) { return; }
    if (this.ws) { try { this.ws.close(); } catch (e) { } this.ws = null; }
    this.isConnecting = true;
    try { ... this.ws = new WebSocket(...); ... }
    catch (error) { this.isConnecting = false; this.ws = null; }
  }
  'close': this.ws = null;
           if (this.heartbeatInterval) { clearInterval(this.heartbeatInterval); this.heartbeatInterval = null; }
           // Let the keep-alive alarm handle reconnection instead of immediate retry
  \<close>
\<close>

definition connectToGateway_ka :: "bool \<Rightarrow> kbot \<Rightarrow> kbot" where
  "connectToGateway_ka gatewayOk st =
     (if \<not> botEnabled st then st
      else if ws st = Some OPEN then st
      else if isConnecting st then st
      else
        (let st1 = (if ws st \<noteq> None then (emit [WsClose] st)\<lparr> ws := None \<rparr> else st);
             st2 = emit [Http GetGateway] (st1\<lparr> isConnecting := True \<rparr>)
         in if gatewayOk then (emit [NewWebSocket] st2)\<lparr> ws := Some CONNECTING \<rparr>
            else st2\<lparr> isConnecting := False, ws := None \<rparr>))"

definition onClose_ka :: "kbot \<Rightarrow> kbot" where
  "onClose_ka st =
     (let st1 = st\<lparr> ws := None \<rparr>
      in if heartbeatInterval st1 \<noteq> None
         then (emit [ClearInterval] st1)\<lparr> heartbeatInterval := None \<rparr> else st1)"

text \<open>
  \<^verbatim>\<open>
  async scheduleKeepAlive() {
    const next = new Date(Date.now() + 30000);
    this.keepAliveAlarm = await this.state.storage.setAlarm(next);
  }
  '/start': this.botEnabled = true; await this.state.storage.put('botEnabled', true);
            await this.connectToGateway(); await this.scheduleKeepAlive();
  \<close>
\<close>

definition scheduleKeepAlive :: "int \<Rightarrow> kbot \<Rightarrow> kbot" where
  "scheduleKeepAlive now st = emit [SetAlarm (now + 30000)] st"

definition start_ka :: "bool \<Rightarrow> int \<Rightarrow> kbot \<Rightarrow> kbot" where
  "start_ka gatewayOk now st =
     scheduleKeepAlive now
       (connectToGateway_ka gatewayOk (st\<lparr> botEnabled := True, storage_botEnabled := Some True \<rparr>))"

text \<open>
  \<^verbatim>\<open>
  async alarm() {
    if (this.testMode && !this.testSummarySent) {
      await this.sendSummary();
      this.testSummarySent = true; this.testMode = false; this.botEnabled = false;
      await this.state.storage.put('botEnabled', false);
      return;
    }
    const enabled = await this.state.storage.get('botEnabled');
    if (!enabled) { return; }
    this.botEnabled = enabled;
    if (!this.ws || this.ws.readyState !== WebSocket.OPEN) { await this.connectToGateway(); }
    const summaryHour = parseInt(this.env.SUMMARY_TIME_HOUR) || 9;
    const now = new Date();
    if (now.getUTCHours() === summaryHour && now.getUTCMinutes() < 1) { await this.sendSummary(); }
    await this.scheduleKeepAlive();
  }
  \<close>
  \<open>now1\<close>, \<open>now2\<close> and \<open>now3\<close> are the readings of the clock by \<open>new Date()\<close>, by
  \<open>sendSummary\<close> and by \<open>scheduleKeepAlive\<close>; in test mode only \<open>sendSummary\<close> reads it.
\<close>

definition alarm_ka :: "env \<Rightarrow> (int \<Rightarrow> jsstring) \<Rightarrow> (nat \<Rightarrow> http_result) \<Rightarrow> bool \<Rightarrow> int \<Rightarrow> int \<Rightarrow> int \<Rightarrow> kbot \<Rightarrow> kbot" where
  "alarm_ka e toLocaleTimeString respond gatewayOk now1 now2 now3 st =
     (if testMode st \<and> \<not> testSummarySent st then
        (sendSummary e toLocaleTimeString respond now2 st)
          \<lparr> botEnabled := False, testMode := False, testSummarySent := True,
            storage_botEnabled := Some False \<rparr>
      else if storage_botEnabled st \<noteq> Some True then st
      else
        (let st1 = st\<lparr> botEnabled := True \<rparr>;
             st2 = (if ws st1 \<noteq> Some OPEN then connectToGateway_ka gatewayOk st1 else st1);
             st3 = (if getUTCHours now1 = summaryHour e \<and> getUTCMinutes now1 < 1
                    then sendSummary e toLocaleTimeString respond now2 st2 else st2)
         in scheduleKeepAlive now3 st3))"

section \<open>The local variant: the store of \<open>bot.js\<close>\<close>

text \<open>
  \<^verbatim>\<open>
  client.on(Events.MessageCreate, (message) => {
    if (message.channelId !== process.env.CHANNEL_ID) { return; }
    if (message.author.bot) { return; }
    const messageData = { id: message.id, content: message.content, author: message.author.username,
      authorId: message.author.id, timestamp: message.createdTimestamp, channelId: message.channelId };
    messageStore.push(messageData);
    const intervalMs = parseInt(process.env.SUMMARY_INTERVAL) * 60 * 60 * 1000;
    const cutoffTime = Date.now() - intervalMs;
    while (messageStore.length > 0 && messageStore[0].timestamp < cutoffTime) { messageStore.shift(); }
  });
  \<close>
  Here the timestamp is the creation time that the message carries. The scheduler
  selects with the same filter, \<open>recentMessages\<close>, on this store.
\<close>

record local_message =
  lm_id :: jsstring
  lm_channelId :: jsstring
  lm_content :: jsstring
  lm_author_username :: jsstring
  lm_author_id :: jsstring
  lm_author_bot :: bool
  lm_createdTimestamp :: int

definition before :: "int option \<Rightarrow> messageData \<Rightarrow> bool" where
  "before cutoff msg = (case cutoff of None \<Rightarrow> False | Some c \<Rightarrow> md_timestamp msg < c)"

definition onMessageCreate :: "env \<Rightarrow> local_message \<Rightarrow> int \<Rightarrow> messageData list \<Rightarrow> messageData list" where
  "onMessageCreate e message now store =
     (if lm_channelId message \<noteq> CHANNEL_ID e then store
      else if lm_author_bot message then store
      else
        (let messageData = \<lparr> md_id = lm_id message, md_content = lm_content message,
                              md_author = lm_author_username message, md_authorId = lm_author_id message,
                              md_timestamp = lm_createdTimestamp message, md_channelId = lm_channelId message \<rparr>
         in dropWhile (before (cutoffTime now (SUMMARY_INTERVAL e))) (store @ [messageData])))"

section \<open>Sequences of record calls\<close>

text \<open>
  A record call of the gateway variants is a message with the two clock readings of
  \<open>handleMessageCreate\<close>; one of the local variant is a message with the clock reading of
  the listener.
\<close>

definition recordCalls :: "env \<Rightarrow> (gateway_message \<times> int \<times> int) list \<Rightarrow> 'a bot_scheme \<Rightarrow> 'a bot_scheme" where
  "recordCalls e calls st =
     foldl (\<lambda>st (message, stampNow, pruneNow). handleMessageCreate e message stampNow pruneNow st) st calls"

definition recordCalls_local :: "env \<Rightarrow> (local_message \<times> int) list \<Rightarrow> messageData list \<Rightarrow> messageData list" where
  "recordCalls_local e calls store =
     foldl (\<lambda>store (message, now). onMessageCreate e message now store) store calls"

text \<open>The timestamps that the calls record, in order: of the messages that are accepted.\<close>

definition stamps :: "env \<Rightarrow> (gateway_message \<times> int \<times> int) list \<Rightarrow> int list" where
  "stamps e calls =
     map (\<lambda>(message, stampNow, pruneNow). stampNow)
       (filter (\<lambda>(message, stampNow, pruneNow). gm_channel_id message = CHANNEL_ID e \<and> \<not> gm_author_bot message) calls)"

definition stamps_local :: "env \<Rightarrow> (local_message \<times> int) list \<Rightarrow> int list" where
  "stamps_local e calls =
     map (\<lambda>(message, now). lm_createdTimestamp message)
       (filter (\<lambda>(message, now). lm_channelId message = CHANNEL_ID e \<and> \<not> lm_author_bot message) calls)"

section \<open>Runs of lines\<close>

text \<open>
  What \<open>splitMessage\<close> emits for a run of consecutive lines: the lines joined by line
  feeds and trimmed; nothing for a run of empty lines only.
\<close>

definition emitted :: "jsstring list list \<Rightarrow> jsstring list" where
  "emitted groups =
     map (\<lambda>g. trim (js_join g LF)) (filter (\<lambda>g. \<exists>l\<in>set g. l \<noteq> []) groups)"

definition joined :: "jsstring list \<Rightarrow> jsstring" where
  "joined g = js_join (dropWhile (\<lambda>l. l = []) g) LF"

section \<open>Example inputs\<close>

text \<open>
  A line of 2001 units that starts with a space; two lines, the second starting with a
  space; the same without that space; content of 101 spaces.
\<close>

definition indented_line :: jsstring where
  "indented_line = 0x20 # replicate 2000 0x61"

definition two_lines :: jsstring where
  "two_lines = replicate 2000 0x61 @ [LF, 0x20, 0x62]"

definition two_lines_flush :: jsstring where
  "two_lines_flush = replicate 2000 0x61 @ [LF, 0x62]"

definition blank_content :: jsstring where
  "blank_content = replicate 101 0x20"

text \<open>
  A configuration with a window of 24 hours and the target hour 9, and the same with the
  target hour 0.
\<close>

definition env0 :: env where
  "env0 = \<lparr> DISCORD_TOKEN = ascii ''token'', CHANNEL_ID = ascii ''42'', USER_ID = ascii ''7'',
            SUMMARY_INTERVAL = Some 24, SUMMARY_TIME_HOUR = Some 9 \<rparr>"

definition env_midnight :: env where
  "env_midnight = env0\<lparr> SUMMARY_TIME_HOUR := Some 0 \<rparr>"

text \<open>
  Messages of the configured channel: for the local variant with a given creation time,
  for the gateway variants with given content.
\<close>

definition created_at :: "int \<Rightarrow> local_message" where
  "created_at t = \<lparr> lm_id = ascii ''1'', lm_channelId = ascii ''42'', lm_content = ascii ''hi'',
     lm_author_username = ascii ''ann'', lm_author_id = ascii ''2'', lm_author_bot = False,
     lm_createdTimestamp = t \<rparr>"

definition message_with :: "jsstring \<Rightarrow> gateway_message" where
  "message_with c = \<lparr> gm_id = ascii ''1'', gm_channel_id = ascii ''42'', gm_content = c,
     gm_author_username = ascii ''ann'', gm_author_id = ascii ''2'', gm_author_bot = False \<rparr>"

text \<open>
  The timestamps in the store followed by the ones still to be recorded are in
  ascending order and none is after \<open>now\<close>.
\<close>

definition chronological :: "int \<Rightarrow> int list \<Rightarrow> int list \<Rightarrow> bool" where
  "chronological now stored coming =
     (sorted (stored @ coming) \<and> (\<forall>t\<in>set (stored @ coming). t \<le> now))"

text \<open>Two record calls of the gateway variants and of the local variant.\<close>

definition two_calls :: "(gateway_message \<times> int \<times> int) list" where
  "two_calls = [(message_with (ascii ''hi''), 1000, 1000), (message_with (ascii ''yo''), 2000, 2000)]"

definition two_calls_local :: "(local_message \<times> int) list" where
  "two_calls_local = [(created_at 1000, 1001), (created_at 2000, 2001)]"

text \<open>Content of two lines of 1500 units each, which needs two chunks.\<close>

definition two_long_lines :: jsstring where
  "two_long_lines = replicate 1500 0x61 @ LF # replicate 1500 0x62"

text \<open>
  A hello frame and a message frame, a stand-in for \<open>toLocaleTimeString\<close>, and the
  requests for a direct channel among effects: one per digest that is delivered.
\<close>

definition hello_frame :: frame where
  "hello_frame = \<lparr> f_op = 10, f_t = None, f_s = None, f_d = DHello 41250 \<rparr>"

definition create_frame :: frame where
  "create_frame = \<lparr> f_op = 0, f_t = Some (ascii ''MESSAGE_CREATE''), f_s = Some 1,
                     f_d = DMessage (message_with (ascii ''hi'')) \<rparr>"

definition noon :: "int \<Rightarrow> jsstring" where
  "noon t = ascii ''12:00 PM''"

fun digests :: "effect list \<Rightarrow> nat" where
  "digests [] = 0"
| "digests (Http (CreateDM userId) # es) = Suc (digests es)"
| "digests (ef # es) = digests es"

text \<open>
  A run of the keep-alive variant: started at 1000, the socket opens, hello arrives at
  2000, a message at 3000.
\<close>

definition ka_listening :: kbot where
  "ka_listening =
     handleGatewayMessage env0 create_frame 3000 3000
       (handleGatewayMessage env0 hello_frame 2000 2000
         (onOpen (start_ka True 1000 constructor_ka)))"

text \<open>
  Five closes in a row, each followed by the reconnect timer, without the socket ever
  opening; and a failed first connection followed by one that opens.
\<close>

definition five_closes :: "event list" where
  "five_closes = [Start True, WsClosed, ReconnectTimer True, WsClosed, ReconnectTimer True, WsClosed,
                  ReconnectTimer True, WsClosed, ReconnectTimer True, WsClosed]"

definition close_then_open :: "event list" where
  "close_then_open = [Start True, WsClosed, ReconnectTimer True, WsOpened]"

text \<open>
  Three connections in a row whose socket opens and is closed before any frame arrives.
\<close>

definition open_close_rounds :: "event list" where
  "open_close_rounds = [Start True, WsOpened, WsClosed, ReconnectTimer True, WsOpened, WsClosed,
                        ReconnectTimer True, WsOpened, WsClosed]"

section \<open>Properties of strings and of the chunker\<close>

lemma length_trim_le: "length (trim s) \<le> length s"
proof -
  have "length (dropWhile isWhiteSpace (rev (dropWhile isWhiteSpace s))) \<le> length (rev (dropWhile isWhiteSpace s))"
    by (rule length_dropWhile_le)
  also have "\<dots> \<le> length s" by (simp add: length_dropWhile_le)
  finally show ?thesis by (simp add: trim_def)
qed

lemma rev_dropWhile_rev_prefix: "\<exists>w. u = rev (dropWhile P (rev u)) @ w"
proof -
  have "rev u = takeWhile P (rev u) @ dropWhile P (rev u)" by simp
  then have "u = rev (takeWhile P (rev u) @ dropWhile P (rev u))" by (metis rev_rev_ident)
  then show ?thesis by (metis rev_append)
qed

lemma trim_no_leading: "trim s = [] \<or> \<not> isWhiteSpace (hd (trim s))"
proof (cases "trim s = []")
  case True then show ?thesis by simp
next
  case False
  let ?u = "dropWhile isWhiteSpace s"
  obtain w where u: "?u = trim s @ w" using rev_dropWhile_rev_prefix[of ?u isWhiteSpace] by (auto simp: trim_def)
  from False u have "hd (trim s) = hd ?u" by (metis hd_append2)
  moreover have "?u \<noteq> []" using u False by auto
  then have "\<not> isWhiteSpace (hd ?u)" by (rule hd_dropWhile)
  ultimately show ?thesis by simp
qed

lemma trim_idem: "trim (trim s) = trim s"
proof -
  have a: "dropWhile isWhiteSpace (trim s) = trim s"
    using trim_no_leading[of s] by (simp add: dropWhile_eq_self_iff)
  have "trim (trim s) = rev (dropWhile isWhiteSpace (rev (trim s)))"
    unfolding trim_def[of "trim s"] a ..
  also have "\<dots> = trim s" by (simp add: trim_def)
  finally show ?thesis .
qed


lemma length_ellipsis: "length (ascii ''...'') = 3" by (simp add: ascii_def)

lemma length_safeLine_eq:
  "length (safeLine maxLength line) =
     (if maxLength < length line then min (length line) (maxLength - 3) + 3 else length line)"
  by (simp only: safeLine_def length_append length_take length_ellipsis if_distrib[of length])

lemma length_safeLine: "3 \<le> maxLength \<Longrightarrow> length (safeLine maxLength line) \<le> maxLength"
  unfolding length_safeLine_eq by (cases "maxLength < length line") auto

lemma length_safeLine_over: "3 \<le> maxLength \<Longrightarrow> maxLength < length line \<Longrightarrow> length (safeLine maxLength line) = maxLength"
  unfolding length_safeLine_eq by auto

lemma pushTrimmed_bounded:
  "\<forall>c\<in>set chunks. length c \<le> maxLength \<Longrightarrow> length currentChunk \<le> maxLength \<Longrightarrow>
   \<forall>c\<in>set (pushTrimmed chunks currentChunk). length c \<le> maxLength"
  using length_trim_le[of currentChunk] by (auto simp: pushTrimmed_def)

lemma splitLoop_bounded:
  "3 \<le> maxLength \<Longrightarrow> \<forall>c\<in>set chunks. length c \<le> maxLength \<Longrightarrow> length currentChunk \<le> maxLength \<Longrightarrow>
   splitLoop maxLength lines chunks currentChunk = (chunks', currentChunk') \<Longrightarrow>
   (\<forall>c\<in>set chunks'. length c \<le> maxLength) \<and> length currentChunk' \<le> maxLength"
proof (induction lines arbitrary: chunks currentChunk)
  case Nil then show ?case by simp
next
  case (Cons line lines)
  have sl: "length (safeLine maxLength line) \<le> maxLength" using Cons.prems(1) by (rule length_safeLine)
  show ?case
  proof (cases "length (currentChunk @ [LF] @ safeLine maxLength line) > maxLength")
    case True
    with Cons.prems(4) have
      "splitLoop maxLength lines (pushTrimmed chunks currentChunk) (safeLine maxLength line) = (chunks', currentChunk')"
      by simp
    then show ?thesis using Cons.IH Cons.prems(1) sl pushTrimmed_bounded[OF Cons.prems(2,3)] by blast
  next
    case False
    with Cons.prems(4) have
      "splitLoop maxLength lines chunks (currentChunk @ (if currentChunk \<noteq> [] then [LF] else []) @ safeLine maxLength line) = (chunks', currentChunk')"
      by simp
    moreover have "length (currentChunk @ (if currentChunk \<noteq> [] then [LF] else []) @ safeLine maxLength line) \<le> maxLength"
      using False by simp
    ultimately show ?thesis using Cons.IH Cons.prems(1,2) by blast
  qed
qed

lemma splitMessage_bounded:
  assumes "3 \<le> maxLength" "c \<in> set (splitMessage content maxLength)"
  shows "length c \<le> maxLength"
proof (cases "length content \<le> maxLength")
  case True with assms show ?thesis by (simp add: splitMessage_def)
next
  case False
  obtain chunks cur where r: "splitLoop maxLength (js_split content LF) [] [] = (chunks, cur)" by fastforce
  have b: "(\<forall>c\<in>set chunks. length c \<le> maxLength) \<and> length cur \<le> maxLength"
    using splitLoop_bounded[OF assms(1) _ _ r] by simp
  then have "\<forall>c\<in>set (pushTrimmed chunks cur). length c \<le> maxLength"
    using pushTrimmed_bounded[of chunks maxLength cur] by blast
  with False r assms(2) show ?thesis by (simp add: splitMessage_def)
qed

lemma set_pushTrimmed: "set chunks \<subseteq> set (pushTrimmed chunks cur)"
  by (auto simp: pushTrimmed_def)

lemma splitLoop_keeps:
  "c \<in> set chunks \<Longrightarrow> c \<in> set (case splitLoop m lines chunks cur of (ch, cu) \<Rightarrow> pushTrimmed ch cu)"
proof (induction lines arbitrary: chunks cur)
  case Nil then show ?case using set_pushTrimmed by auto
next
  case (Cons line lines)
  show ?case
  proof (cases "length (cur @ [LF] @ safeLine m line) > m")
    case True
    have "c \<in> set (pushTrimmed chunks cur)" using Cons.prems set_pushTrimmed by blast
    from Cons.IH[OF this] True show ?thesis by simp
  next
    case False
    from Cons.IH[OF Cons.prems] False show ?thesis by simp
  qed
qed

lemma splitLoop_full_flushed:
  assumes "3 \<le> m" "length cur = m"
  shows "trim cur \<in> set (case splitLoop m lines chunks cur of (ch, cu) \<Rightarrow> pushTrimmed ch cu)"
proof (cases lines)
  case Nil
  with assms show ?thesis by (auto simp: pushTrimmed_def)
next
  case (Cons line rest)
  have over: "length (cur @ [LF] @ safeLine m line) > m" using assms(2) by simp
  have "trim cur \<in> set (pushTrimmed chunks cur)" using assms by (auto simp: pushTrimmed_def)
  from splitLoop_keeps[OF this] over Cons show ?thesis by simp
qed

lemma splitLoop_long_line:
  assumes "3 \<le> m"
  shows "line \<in> set lines \<Longrightarrow> m < length line \<Longrightarrow>
         trim (safeLine m line) \<in> set (case splitLoop m lines chunks cur of (ch, cu) \<Rightarrow> pushTrimmed ch cu)"
proof (induction lines arbitrary: chunks cur)
  case Nil then show ?case by simp
next
  case (Cons l lines)
  show ?case
  proof (cases "l = line")
    case True
    have len: "length (safeLine m line) = m" using assms Cons.prems(2) by (rule length_safeLine_over)
    then have over: "length (cur @ [LF] @ safeLine m line) > m" by simp
    show ?thesis using True over splitLoop_full_flushed[OF assms len] by simp
  next
    case False
    with Cons.prems have "line \<in> set lines" by simp
    from Cons.IH[OF this Cons.prems(2)] show ?thesis by (cases "length (cur @ [LF] @ safeLine m l) > m") simp_all
  qed
qed

lemma splitLoop_trimmed:
  "\<forall>c\<in>set chunks. trim c = c \<Longrightarrow>
   \<forall>c\<in>set (case splitLoop m lines chunks cur of (ch, cu) \<Rightarrow> pushTrimmed ch cu). trim c = c"
proof (induction lines arbitrary: chunks cur)
  case Nil then show ?case by (auto simp: pushTrimmed_def trim_idem)
next
  case (Cons l lines)
  have "\<forall>c\<in>set (pushTrimmed chunks cur). trim c = c" using Cons.prems by (auto simp: pushTrimmed_def trim_idem)
  from Cons.IH[OF this] Cons.IH[OF Cons.prems] show ?case
    by (cases "length (cur @ [LF] @ safeLine m l) > m") simp_all
qed

lemma js_split_nonempty: "js_split s sep \<noteq> []"
  by (induction s) (auto split: list.splits)

lemma js_join_split: "js_join (js_split s sep) sep = s"
proof (induction s)
  case Nil show ?case by simp
next
  case (Cons c cs)
  obtain l ls where sp: "js_split cs sep = l # ls" using js_split_nonempty[of cs sep] by (cases "js_split cs sep") auto
  show ?case
  proof (cases "c = sep")
    case True
    then show ?thesis using Cons.IH sp by simp
  next
    case False
    have "js_join ((c # l) # ls) sep = c # js_join (l # ls) sep" by (cases ls) simp_all
    then show ?thesis using False Cons.IH sp by simp
  qed
qed

lemma js_join_snoc: "g \<noteq> [] \<Longrightarrow> js_join (g @ [l]) sep = js_join g sep @ sep # l"
proof (induction g sep rule: js_join.induct)
  case (1 sep) then show ?case by simp
next
  case (2 l' sep) then show ?case by simp
next
  case (3 a b ls sep) then show ?case by simp
qed

lemma js_join_hd_nonempty: "g \<noteq> [] \<Longrightarrow> hd g \<noteq> [] \<Longrightarrow> js_join g sep \<noteq> []"
  by (induction g sep rule: js_join.induct) auto

lemma joined_empty_iff: "joined g = [] \<longleftrightarrow> (\<forall>l\<in>set g. l = [])"
proof
  assume "joined g = []"
  show "\<forall>l\<in>set g. l = []"
  proof (rule ccontr)
    assume "\<not> (\<forall>l\<in>set g. l = [])"
    then have ne: "dropWhile (\<lambda>l. l = []) g \<noteq> []" by auto
    then have "hd (dropWhile (\<lambda>l. l = []) g) \<noteq> []" by (rule hd_dropWhile)
    with ne have "joined g \<noteq> []" unfolding joined_def by (rule js_join_hd_nonempty)
    with \<open>joined g = []\<close> show False by simp
  qed
next
  assume "\<forall>l\<in>set g. l = []"
  then have "dropWhile (\<lambda>l. l = []) g = []" by simp
  then show "joined g = []" by (simp only: joined_def js_join.simps)
qed

lemma joined_snoc: "joined (g @ [l]) = joined g @ (if joined g \<noteq> [] then [LF] else []) @ l"
proof (cases "\<forall>x\<in>set g. x = []")
  case True
  then have e: "joined g = []" by (simp add: joined_empty_iff)
  from True have "dropWhile (\<lambda>l. l = []) (g @ [l]) = dropWhile (\<lambda>l. l = []) [l]"
    by simp
  then have "joined (g @ [l]) = l" by (simp add: joined_def)
  with e show ?thesis by simp
next
  case False
  then have ne: "joined g \<noteq> []" by (simp add: joined_empty_iff)
  from False have ne': "dropWhile (\<lambda>l. l = []) g \<noteq> []" by auto
  from False have "dropWhile (\<lambda>l. l = []) (g @ [l]) = dropWhile (\<lambda>l. l = []) g @ [l]"
    by auto
  then have "joined (g @ [l]) = joined g @ LF # l" using js_join_snoc[OF ne'] by (simp add: joined_def)
  with ne show ?thesis by simp
qed

lemma joined_single: "joined [l] = l" by (simp add: joined_def)

lemma isWhiteSpace_LF: "isWhiteSpace LF" by (simp add: isWhiteSpace_def LF_def)

lemma trim_LF: "trim (LF # s) = trim s" by (simp add: trim_def isWhiteSpace_LF)

lemma trim_joined: "trim (joined g) = trim (js_join g LF)"
proof (induction g)
  case Nil show ?case by (simp add: joined_def)
next
  case (Cons l g)
  show ?case
  proof (cases "l = []")
    case False then show ?thesis by (simp add: joined_def)
  next
    case True
    have "joined (l # g) = joined g" using True by (simp add: joined_def)
    moreover have "trim (js_join (l # g) LF) = trim (js_join g LF)"
      using True by (cases g) (simp_all add: trim_LF)
    ultimately show ?thesis using Cons.IH by simp
  qed
qed

lemma emitted_snoc: "emitted (gs @ [g]) = pushTrimmed (emitted gs) (joined g)"
  using joined_empty_iff[of g] by (auto simp: emitted_def pushTrimmed_def trim_joined)

lemma splitLoop_groups:
  "\<exists>groups. concat groups = g @ map (safeLine m) lines \<and>
     (case splitLoop m lines (emitted gs) (joined g) of (ch, cu) \<Rightarrow> pushTrimmed ch cu) = emitted (gs @ groups)"
proof (induction lines arbitrary: gs g)
  case Nil
  have "concat [g] = g @ map (safeLine m) []" by simp
  moreover have "(case splitLoop m [] (emitted gs) (joined g) of (ch, cu) \<Rightarrow> pushTrimmed ch cu) = emitted (gs @ [g])"
    by (simp add: emitted_snoc)
  ultimately show ?case by blast
next
  case (Cons l lines)
  show ?case
  proof (cases "length (joined g @ [LF] @ safeLine m l) > m")
    case True
    from Cons.IH[where gs="gs @ [g]" and g="[safeLine m l]"] obtain groups where
      c: "concat groups = [safeLine m l] @ map (safeLine m) lines" and
      e: "(case splitLoop m lines (emitted (gs @ [g])) (joined [safeLine m l]) of (ch, cu) \<Rightarrow> pushTrimmed ch cu) = emitted ((gs @ [g]) @ groups)"
      by blast
    have "concat (g # groups) = g @ map (safeLine m) (l # lines)" using c by simp
    moreover have "(case splitLoop m (l # lines) (emitted gs) (joined g) of (ch, cu) \<Rightarrow> pushTrimmed ch cu) = emitted (gs @ (g # groups))"
      using True e by (simp add: emitted_snoc joined_single)
    ultimately show ?thesis by blast
  next
    case False
    from Cons.IH[where gs=gs and g="g @ [safeLine m l]"] obtain groups where
      c: "concat groups = (g @ [safeLine m l]) @ map (safeLine m) lines" and
      e: "(case splitLoop m lines (emitted gs) (joined (g @ [safeLine m l])) of (ch, cu) \<Rightarrow> pushTrimmed ch cu) = emitted (gs @ groups)"
      by blast
    have "concat groups = g @ map (safeLine m) (l # lines)" using c by simp
    moreover have "(case splitLoop m (l # lines) (emitted gs) (joined g) of (ch, cu) \<Rightarrow> pushTrimmed ch cu) = emitted (gs @ groups)"
      using False e by (simp add: joined_snoc)
    ultimately show ?thesis by blast
  qed
qed

lemma splitMessage_groups:
  assumes "m < length content"
  shows "\<exists>groups. concat groups = map (safeLine m) (js_split content LF) \<and>
     splitMessage content m = emitted groups"
proof -
  have e0: "emitted [] = []" by (simp add: emitted_def)
  have n0: "joined [] = []" by (simp add: joined_def)
  from splitLoop_groups[where g="[]" and m=m and lines="js_split content LF" and gs="[]"] obtain groups where
    c: "concat groups = map (safeLine m) (js_split content LF)" and
    e: "(case splitLoop m (js_split content LF) [] [] of (ch, cu) \<Rightarrow> pushTrimmed ch cu) = emitted groups"
    unfolding e0 n0 by auto
  have "splitMessage content m = emitted groups" using assms e by (simp add: splitMessage_def)
  with c show ?thesis by blast
qed

subsection \<open>The example inputs evaluated\<close>

lemma js_split_no_sep: "sep \<notin> set s \<Longrightarrow> js_split s sep = [s]"
  by (induction s) auto

lemma js_split_append_sep: "sep \<notin> set s \<Longrightarrow> js_split (s @ sep # r) sep = s # js_split r sep"
  by (induction s) auto

lemma trim_ws_Cons: "isWhiteSpace c \<Longrightarrow> trim (c # s) = trim s"
  by (simp add: trim_def)

lemma trim_id: "s \<noteq> [] \<Longrightarrow> \<not> isWhiteSpace (hd s) \<Longrightarrow> \<not> isWhiteSpace (last s) \<Longrightarrow> trim s = s"
proof -
  assume a: "s \<noteq> []" "\<not> isWhiteSpace (hd s)" "\<not> isWhiteSpace (last s)"
  then have 1: "dropWhile isWhiteSpace s = s" by (simp add: dropWhile_eq_self_iff)
  from a have "hd (rev s) = last s" by (simp add: hd_rev)
  with a have 2: "dropWhile isWhiteSpace (rev s) = rev s" by (simp add: dropWhile_eq_self_iff)
  show ?thesis unfolding trim_def 1 2 by simp
qed

lemma ws_a: "\<not> isWhiteSpace 0x61" by (simp add: isWhiteSpace_def)
lemma ws_b: "\<not> isWhiteSpace 0x62" by (simp add: isWhiteSpace_def)
lemma ws_dot: "\<not> isWhiteSpace 0x2E" by (simp add: isWhiteSpace_def)
lemma ws_sp: "isWhiteSpace 0x20" by (simp add: isWhiteSpace_def)

lemma ellipsis: "ascii ''...'' = [0x2E, 0x2E, 0x2E]" by (simp add: ascii_def)

lemma split_indented: "js_split indented_line LF = [indented_line]"
  by (rule js_split_no_sep) (simp add: indented_line_def LF_def)

lemma length_indented: "length indented_line = 2001" by (simp add: indented_line_def)

lemma safe_indented: "safeLine 2000 indented_line = 0x20 # replicate 1996 0x61 @ ascii ''...''"
  by (simp add: safeLine_def indented_line_def)

lemma trim_safe_indented: "trim (0x20 # replicate 1996 0x61 @ ascii ''...'') = replicate 1996 0x61 @ ascii ''...''"
proof -
  have "trim (replicate 1996 0x61 @ ascii ''...'') = replicate 1996 0x61 @ ascii ''...''"
    by (rule trim_id) (simp_all add: ellipsis ws_a ws_dot hd_append)
  then show ?thesis by (simp add: trim_ws_Cons ws_sp)
qed

lemma splitMessage_indented: "splitMessage indented_line 2000 = [replicate 1996 0x61 @ ascii ''...'']"
  by (simp add: splitMessage_def split_indented length_indented safe_indented pushTrimmed_def trim_safe_indented)

lemma split_two_lines: "js_split two_lines LF = [replicate 2000 0x61, [0x20, 0x62]]"
  unfolding two_lines_def append_Cons append_Nil
  by (subst js_split_append_sep) (simp_all add: LF_def)

lemma split_two_lines_flush: "js_split two_lines_flush LF = [replicate 2000 0x61, [0x62]]"
  unfolding two_lines_flush_def append_Cons append_Nil
  by (subst js_split_append_sep) (simp_all add: LF_def)

lemma trim_a2000: "trim (replicate 2000 0x61) = replicate 2000 0x61"
  by (rule trim_id) (simp_all add: ws_a)

lemma trim_sp_b: "trim [0x20, 0x62] = [0x62]" by (simp add: trim_def isWhiteSpace_def)
lemma trim_b: "trim [0x62] = [0x62]" by (simp add: trim_def isWhiteSpace_def)

lemma splitMessage_two_lines: "splitMessage two_lines 2000 = [replicate 2000 0x61, [0x62]]"
proof -
  have l: "length two_lines = 2003" by (simp add: two_lines_def)
  show ?thesis
    by (simp add: splitMessage_def l split_two_lines safeLine_def pushTrimmed_def trim_a2000 trim_sp_b)
qed

lemma splitMessage_two_lines_flush: "splitMessage two_lines_flush 2000 = [replicate 2000 0x61, [0x62]]"
proof -
  have l: "length two_lines_flush = 2002" by (simp add: two_lines_flush_def)
  show ?thesis
    by (simp add: splitMessage_def l split_two_lines_flush safeLine_def pushTrimmed_def trim_a2000 trim_b)
qed

subsection \<open>Claims about \<open>splitMessage\<close>\<close>

lemma length_line_le_join: "l \<in> set ls \<Longrightarrow> length l \<le> length (js_join ls sep)"
  by (induction ls sep rule: js_join.induct) auto

lemma filter_single_run:
  "concat groups = [x] \<Longrightarrow> x \<noteq> [] \<Longrightarrow> filter (\<lambda>g. \<exists>l\<in>set g. l \<noteq> []) groups = [[x]]"
proof (induction groups)
  case Nil
  then show ?case by simp
next
  case (Cons g groups)
  from Cons.prems(1) have "g @ concat groups = [x]" by simp
  then consider "g = []" "concat groups = [x]" | "g = [x]" "concat groups = []"
    by (auto simp: append_eq_Cons_conv)
  then show ?case
  proof cases
    case 1
    with Cons.IH Cons.prems(2) show ?thesis by simp
  next
    case 2
    from 2(2) have "\<forall>h\<in>set groups. h = []" by simp
    then have "filter (\<lambda>g. \<exists>l\<in>set g. l \<noteq> []) groups = []" by (induction groups) auto
    with 2(1) Cons.prems(2) show ?thesis by simp
  qed
qed

text \<open>
  C10: \<open>splitMessage\<close> returns content of at most 2000 units as one chunk equal to the
  input, untrimmed. For longer content the lines, cut where they are too long, fall into
  consecutive runs that together are all the lines, and the chunks returned are exactly
  the results of \<open>trim\<close> on the runs joined by line feeds, for the runs that have a
  line that is not empty; so trimming a chunk again changes nothing.
\<close>

theorem splitMessage_short_verbatim_long_trimmed:
  "(length content \<le> 2000 \<longrightarrow> splitMessage content 2000 = [content]) \<and>
   (length content > 2000 \<longrightarrow>
      (\<exists>groups. concat groups = map (safeLine 2000) (js_split content LF) \<and>
         splitMessage content 2000 =
           map trim (map (\<lambda>g. js_join g LF) (filter (\<lambda>g. \<exists>l\<in>set g. l \<noteq> []) groups))) \<and>
      (\<forall>c\<in>set (splitMessage content 2000). trim c = c))"
proof (intro conjI impI)
  assume "length content \<le> 2000"
  then show "splitMessage content 2000 = [content]" by (simp add: splitMessage_def)
next
  assume long: "length content > 2000"
  from splitMessage_groups[OF long] obtain groups where
    g: "concat groups = map (safeLine 2000) (js_split content LF)"
       "splitMessage content 2000 = emitted groups" by blast
  from g(2) have "splitMessage content 2000 =
      map trim (map (\<lambda>g. js_join g LF) (filter (\<lambda>g. \<exists>l\<in>set g. l \<noteq> []) groups))"
    by (simp add: emitted_def comp_def)
  with g(1) show "\<exists>groups. concat groups = map (safeLine 2000) (js_split content LF) \<and>
         splitMessage content 2000 =
           map trim (map (\<lambda>g. js_join g LF) (filter (\<lambda>g. \<exists>l\<in>set g. l \<noteq> []) groups))"
    by blast
next
  assume long: "length content > 2000"
  have "\<forall>c\<in>set (case splitLoop 2000 (js_split content LF) [] [] of (ch, cu) \<Rightarrow> pushTrimmed ch cu). trim c = c"
    by (rule splitLoop_trimmed) simp
  with long show "\<forall>c\<in>set (splitMessage content 2000). trim c = c"
    by (simp add: splitMessage_def)
qed

theorem splitMessage_short_verbatim_long_trimmed_witness:
  "length (ascii '' a '') \<le> 2000 \<and> splitMessage (ascii '' a '') 2000 = [ascii '' a '']
   \<and> trim (ascii '' a '') \<noteq> ascii '' a ''
   \<and> length indented_line > 2000
   \<and> splitMessage indented_line 2000 = [trim (safeLine 2000 indented_line)]
   \<and> safeLine 2000 indented_line = 0x20 # replicate 1996 0x61 @ ascii ''...''
   \<and> trim (safeLine 2000 indented_line) = replicate 1996 0x61 @ ascii ''...''
   \<and> trim (trim (safeLine 2000 indented_line)) = trim (safeLine 2000 indented_line)"
proof -
  have s: "length (ascii '' a '') \<le> 2000" by (simp add: ascii_def)
  have l: "length indented_line > 2000" by (simp add: length_indented)
  have t: "trim (ascii '' a '') \<noteq> ascii '' a ''" by (simp add: ascii_def trim_def isWhiteSpace_def)
  note short = splitMessage_short_verbatim_long_trimmed[of "ascii '' a ''"]
  note long = splitMessage_short_verbatim_long_trimmed[of indented_line]
  from long l obtain groups where
    g: "concat groups = map (safeLine 2000) (js_split indented_line LF)"
       "splitMessage indented_line 2000 =
           map trim (map (\<lambda>g. js_join g LF) (filter (\<lambda>g. \<exists>l\<in>set g. l \<noteq> []) groups))"
    and f: "\<forall>c\<in>set (splitMessage indented_line 2000). trim c = c"
    by blast
  have ne: "safeLine 2000 indented_line \<noteq> []" by (simp add: safe_indented)
  from g(1) have "concat groups = [safeLine 2000 indented_line]" by (simp add: split_indented)
  from filter_single_run[OF this ne] g(2)
  have c: "splitMessage indented_line 2000 = [trim (safeLine 2000 indented_line)]" by simp
  with f have i: "trim (trim (safeLine 2000 indented_line)) = trim (safeLine 2000 indented_line)" by simp
  have v: "trim (safeLine 2000 indented_line) = replicate 1996 0x61 @ ascii ''...''"
    by (simp only: safe_indented trim_safe_indented)
  from s l t short c i v safe_indented show ?thesis by blast
qed

text \<open>
  C1, as stated, fails: a line of more than 2000 units that starts with white space is
  cut to 1997 units plus the ellipsis, but the chunk emitted for it is the trimmed cut,
  here 1996 units plus the ellipsis.
\<close>

theorem splitMessage_long_line_counterexample:
  "indented_line \<in> set (js_split indented_line LF) \<and> length indented_line > 2000 \<and>
   take 1997 indented_line @ ascii ''...'' \<notin> set (splitMessage indented_line 2000) \<and>
   splitMessage indented_line 2000 = [replicate 1996 0x61 @ ascii ''...'']"
  by (simp add: split_indented length_indented splitMessage_indented) (simp add: indented_line_def)

text \<open>
  C1, amended: every chunk of \<open>splitMessage\<close> has at most 2000 units, and for every line
  of more than 2000 units one chunk is exactly that line cut to 1997 units plus the
  ellipsis and then trimmed.
\<close>

theorem splitMessage_bounded_long_line_own_chunk:
  "(\<forall>c\<in>set (splitMessage content 2000). length c \<le> 2000) \<and>
   (\<forall>line\<in>set (js_split content LF). length line > 2000 \<longrightarrow>
      trim (take 1997 line @ ascii ''...'') \<in> set (splitMessage content 2000))"
proof (intro conjI ballI impI)
  fix c assume "c \<in> set (splitMessage content 2000)"
  then show "length c \<le> 2000" using splitMessage_bounded[of 2000 c content] by simp
next
  fix line assume line: "line \<in> set (js_split content LF)" and long: "length line > 2000"
  have "length line \<le> length (js_join (js_split content LF) LF)"
    using line by (rule length_line_le_join)
  then have clong: "length content > 2000" using long by (simp add: js_join_split)
  have "trim (safeLine 2000 line) \<in>
        set (case splitLoop 2000 (js_split content LF) [] [] of (ch, cu) \<Rightarrow> pushTrimmed ch cu)"
    using line long by (intro splitLoop_long_line) simp_all
  moreover have "safeLine 2000 line = take 1997 line @ ascii ''...''"
    using long by (simp add: safeLine_def)
  ultimately show "trim (take 1997 line @ ascii ''...'') \<in> set (splitMessage content 2000)"
    using clong by (simp add: splitMessage_def)
qed

theorem splitMessage_bounded_long_line_own_chunk_witness:
  "indented_line \<in> set (js_split indented_line LF) \<and> length indented_line > 2000 \<and>
   trim (take 1997 indented_line @ ascii ''...'') \<in> set (splitMessage indented_line 2000) \<and>
   length (trim (take 1997 indented_line @ ascii ''...'')) \<le> 2000"
proof -
  have m: "indented_line \<in> set (js_split indented_line LF)" by (simp add: split_indented)
  have l: "length indented_line > 2000" by (simp add: length_indented)
  from m l splitMessage_bounded_long_line_own_chunk[of indented_line] show ?thesis by blast
qed

text \<open>
  C9, as stated, fails: white space at the ends of a chunk is lost. Neither line of
  \<open>two_lines\<close> is longer than 2000 units, yet joining its chunks with line feeds does not
  give it back, and the different content \<open>two_lines_flush\<close> has the same chunks.
\<close>

theorem splitMessage_roundtrip_counterexample:
  "js_split two_lines LF = [replicate 2000 0x61, [0x20, 0x62]] \<and>
   splitMessage two_lines 2000 = [replicate 2000 0x61, [0x62]] \<and>
   js_join (splitMessage two_lines 2000) LF \<noteq> two_lines \<and>
   splitMessage two_lines_flush 2000 = splitMessage two_lines 2000 \<and>
   two_lines_flush \<noteq> two_lines"
  by (simp add: split_two_lines splitMessage_two_lines splitMessage_two_lines_flush)
     (simp add: two_lines_def two_lines_flush_def)

text \<open>
  C9, amended: content of at most 2000 units is returned as it is. For longer content
  the lines, each cut to 1997 units plus the ellipsis if it is longer than 2000, fall into
  consecutive runs that together are all the lines in order; the chunks are, in order,
  the runs joined by line feeds and trimmed at both ends, without the runs that have
  only empty lines. Joining the lines by line feeds gives the content back.
\<close>

theorem splitMessage_roundtrip_up_to_trim:
  "(length content \<le> 2000 \<longrightarrow> splitMessage content 2000 = [content]) \<and>
   (length content > 2000 \<longrightarrow>
      (\<exists>groups. concat groups = map (safeLine 2000) (js_split content LF) \<and>
                splitMessage content 2000 = emitted groups)) \<and>
   js_join (js_split content LF) LF = content"
  using splitMessage_groups[of 2000 content]
  by (simp add: js_join_split splitMessage_def)

theorem splitMessage_roundtrip_up_to_trim_witness:
  "length (ascii '' a '') \<le> 2000 \<and> splitMessage (ascii '' a '') 2000 = [ascii '' a ''] \<and>
   length two_lines > 2000 \<and>
   (\<exists>groups. concat groups = map (safeLine 2000) (js_split two_lines LF) \<and>
             splitMessage two_lines 2000 = emitted groups)"
proof -
  have s: "length (ascii '' a '') \<le> 2000" by (simp add: ascii_def)
  have l: "length two_lines > 2000" by (simp add: two_lines_def)
  from s l splitMessage_roundtrip_up_to_trim[of "ascii '' a ''"]
    splitMessage_roundtrip_up_to_trim[of two_lines]
  show ?thesis by blast
qed

section \<open>Properties of the renderer\<close>

lemma trim_empty_iff: "trim s = [] \<longleftrightarrow> (\<forall>c\<in>set s. isWhiteSpace c)"
proof -
  have "trim s = [] \<longleftrightarrow> (\<forall>c\<in>set (dropWhile isWhiteSpace s). isWhiteSpace c)"
    by (simp add: trim_def)
  also have "\<dots> \<longleftrightarrow> dropWhile isWhiteSpace s = []"
  proof
    assume a: "\<forall>c\<in>set (dropWhile isWhiteSpace s). isWhiteSpace c"
    show "dropWhile isWhiteSpace s = []"
    proof (rule ccontr)
      assume ne: "dropWhile isWhiteSpace s \<noteq> []"
      then have "\<not> isWhiteSpace (hd (dropWhile isWhiteSpace s))" by (rule hd_dropWhile)
      moreover have "hd (dropWhile isWhiteSpace s) \<in> set (dropWhile isWhiteSpace s)" using ne by simp
      ultimately show False using a by blast
    qed
  next
    assume "dropWhile isWhiteSpace s = []"
    then show "\<forall>c\<in>set (dropWhile isWhiteSpace s). isWhiteSpace c" by (simp only: list.set ball_empty)
  qed
  also have "\<dots> \<longleftrightarrow> (\<forall>c\<in>set s. isWhiteSpace c)" by simp
  finally show ?thesis .
qed

lemma trim_truncated_nonempty: "trim (take 97 c @ ascii ''...'') \<noteq> []"
  by (simp add: trim_empty_iff ellipsis ws_dot)

lemma lineContent_long: "length c > 100 \<Longrightarrow> lineContent c = take 97 c @ ascii ''...''"
  by (simp add: lineContent_def trim_truncated_nonempty)

lemma formatSummary_body:
  "foldl (\<lambda>body msg. body @ f msg) acc messages = acc @ concat (map f messages)"
  by (induction messages arbitrary: acc) simp_all

text \<open>
  C8, as stated, fails: the placeholder that is rendered is \<open>_[attachment or embed]_\<close>,
  with the underscores, and content of more than 100 units of white space is cut, not
  replaced.
\<close>

theorem lineContent_placeholder_counterexample:
  "trim [] = [] \<and> lineContent [] = ascii ''_[attachment or embed]_'' \<and>
   lineContent [] \<noteq> ascii ''[attachment or embed]'' \<and>
   trim blank_content = [] \<and> lineContent blank_content = replicate 97 0x20 @ ascii ''...''"
proof -
  have 1: "trim [] = []" by (simp add: trim_def)
  have 2: "lineContent [] = ascii ''_[attachment or embed]_''" by (simp add: lineContent_def 1)
  have 3: "ascii ''_[attachment or embed]_'' \<noteq> ascii ''[attachment or embed]''" by (simp add: ascii_def)
  have 4: "trim blank_content = []" by (simp add: trim_empty_iff blank_content_def ws_sp)
  have 5: "lineContent blank_content = replicate 97 0x20 @ ascii ''...''"
    using lineContent_long[of blank_content] by (simp add: blank_content_def)
  from 1 2 3 4 5 show ?thesis by simp
qed

text \<open>
  C8, amended: every line of the digest ends with the rendered content and a line feed;
  content of more than 100 units is rendered as its first 97 units followed by \<open>...\<close>,
  100 units in all; content of at most 100 units that is empty after trimming is rendered
  as \<open>_[attachment or embed]_\<close>; other content is rendered as it is.
\<close>

theorem lineContent_truncates_or_placeholder:
  "formatSummary toLocaleTimeString messages hours =
     [0xD83D, 0xDCCA] @ ascii '' **Message Summary** (Last '' @ showNumber hours @ ascii '' hours)'' @ [LF]
     @ [LF] @ concat (map (formatLine toLocaleTimeString) messages)
     @ [LF, LF] @ ascii ''_Total: '' @ showNat (length messages) @ ascii '' message''
     @ (if length messages \<noteq> 1 then ascii ''s'' else []) @ ascii ''_'' \<and>
   formatLine toLocaleTimeString msg =
     [0x2022] @ ascii '' **'' @ md_author msg @ ascii ''** ('' @ toLocaleTimeString (md_timestamp msg)
       @ ascii ''): '' @ lineContent (md_content msg) @ [LF] \<and>
   (length c > 100 \<longrightarrow> lineContent c = take 97 c @ ascii ''...'' \<and> length (lineContent c) = 100) \<and>
   (length c \<le> 100 \<and> trim c = [] \<longrightarrow> lineContent c = ascii ''_[attachment or embed]_'') \<and>
   (length c \<le> 100 \<and> trim c \<noteq> [] \<longrightarrow> lineContent c = c)"
proof (intro conjI impI)
  show "formatSummary toLocaleTimeString messages hours =
     [0xD83D, 0xDCCA] @ ascii '' **Message Summary** (Last '' @ showNumber hours @ ascii '' hours)'' @ [LF]
     @ [LF] @ concat (map (formatLine toLocaleTimeString) messages)
     @ [LF, LF] @ ascii ''_Total: '' @ showNat (length messages) @ ascii '' message''
     @ (if length messages \<noteq> 1 then ascii ''s'' else []) @ ascii ''_''"
    by (simp add: formatSummary_def formatSummary_body Let_def)
next
  show "formatLine toLocaleTimeString msg =
     [0x2022] @ ascii '' **'' @ md_author msg @ ascii ''** ('' @ toLocaleTimeString (md_timestamp msg)
       @ ascii ''): '' @ lineContent (md_content msg) @ [LF]"
    by (simp add: formatLine_def)
next
  assume l: "length c > 100"
  then show "lineContent c = take 97 c @ ascii ''...''" by (rule lineContent_long)
  from l show "length (lineContent c) = 100" by (simp add: lineContent_long length_ellipsis)
next
  assume "length c \<le> 100 \<and> trim c = []"
  then show "lineContent c = ascii ''_[attachment or embed]_''" by (simp add: lineContent_def)
next
  assume "length c \<le> 100 \<and> trim c \<noteq> []"
  then show "lineContent c = c" by (simp add: lineContent_def)
qed

theorem lineContent_truncates_or_placeholder_witness:
  "length blank_content > 100 \<and> lineContent blank_content = take 97 blank_content @ ascii ''...'' \<and>
   length (lineContent blank_content) = 100 \<and>
   length (ascii ''  '') \<le> 100 \<and> trim (ascii ''  '') = [] \<and>
   lineContent (ascii ''  '') = ascii ''_[attachment or embed]_'' \<and>
   length (ascii ''hi'') \<le> 100 \<and> trim (ascii ''hi'') \<noteq> [] \<and> lineContent (ascii ''hi'') = ascii ''hi''"
proof -
  have a: "length blank_content > 100" by (simp add: blank_content_def)
  have b: "length (ascii ''  '') \<le> 100 \<and> trim (ascii ''  '') = []"
    by (simp add: ascii_def trim_def isWhiteSpace_def)
  have c: "length (ascii ''hi'') \<le> 100 \<and> trim (ascii ''hi'') \<noteq> []"
    by (simp add: ascii_def trim_def isWhiteSpace_def)
  from a b c lineContent_truncates_or_placeholder[of _ _ _ _ blank_content]
    lineContent_truncates_or_placeholder[of _ _ _ _ "ascii ''  ''"]
    lineContent_truncates_or_placeholder[of _ _ _ _ "ascii ''hi''"]
  show ?thesis by blast
qed

section \<open>Properties of the retention buffer\<close>

lemma recentMessages_closed_interval:
  assumes "SUMMARY_INTERVAL e = Some h" "sorted (map md_timestamp store)"
    "\<forall>m\<in>set store. md_timestamp m \<le> now"
  shows "recentMessages e now store =
           filter (\<lambda>m. now - h * 3600000 \<le> md_timestamp m \<and> md_timestamp m \<le> now) store \<and>
         sorted (map md_timestamp (recentMessages e now store))"
proof -
  have "filter (notBefore (cutoffTime now (SUMMARY_INTERVAL e))) store =
        filter (\<lambda>m. now - h * 3600000 \<le> md_timestamp m \<and> md_timestamp m \<le> now) store"
    using assms(1,3) by (intro filter_cong) (auto simp: notBefore_def cutoffTime_def)
  moreover have "sorted (map md_timestamp (filter (notBefore (cutoffTime now (SUMMARY_INTERVAL e))) store))"
    using assms(2) by (rule sorted_filter)
  ultimately show ?thesis by (simp add: recentMessages_def)
qed

lemma sorted_filter_append:
  "sorted (map f xs @ ys) \<Longrightarrow> sorted (map f (filter P xs) @ ys)"
  by (induction xs) (auto simp: sorted_append)

lemma chronological_filter:
  "chronological now (map md_timestamp store) coming \<Longrightarrow>
   chronological now (map md_timestamp (filter P store)) coming"
  unfolding chronological_def using sorted_filter_append[of md_timestamp store coming P] by auto

lemma sorted_dropWhile_append:
  "sorted (map f xs @ ys) \<Longrightarrow> sorted (map f (dropWhile P xs) @ ys)"
  by (induction xs) (auto simp: sorted_append)

lemma chronological_dropWhile:
  "chronological now (map md_timestamp store) coming \<Longrightarrow>
   chronological now (map md_timestamp (dropWhile P store)) coming"
  unfolding chronological_def using sorted_dropWhile_append[of md_timestamp store coming P]
  by (auto dest: set_dropWhileD)

lemma handleMessageCreate_chronological:
  assumes "chronological now (map md_timestamp (messageStore st)) (stamps e ((message, a, b) # calls))"
    and "loadMessages st = messageStore st"
  shows "chronological now (map md_timestamp (messageStore (handleMessageCreate e message a b st))) (stamps e calls)
         \<and> loadMessages (handleMessageCreate e message a b st) = messageStore (handleMessageCreate e message a b st)"
proof (cases "gm_channel_id message = CHANNEL_ID e \<and> \<not> gm_author_bot message")
  case False
  then have "handleMessageCreate e message a b st = st" by (auto simp: handleMessageCreate_def)
  moreover have "stamps e ((message, a, b) # calls) = stamps e calls" using False by (auto simp: stamps_def)
  ultimately show ?thesis using assms by simp
next
  case True
  let ?md = "\<lparr> md_id = gm_id message, md_content = gm_content message,
                 md_author = gm_author_username message, md_authorId = gm_author_id message,
                 md_timestamp = a, md_channelId = gm_channel_id message \<rparr>"
  let ?P = "notBefore (cutoffTime b (SUMMARY_INTERVAL e))"
  have st': "messageStore (handleMessageCreate e message a b st) = filter ?P (messageStore st @ [?md])"
    and ld: "loadMessages (handleMessageCreate e message a b st) = filter ?P (messageStore st @ [?md])"
    using True by (simp_all add: handleMessageCreate_def Let_def loadMessages_def)
  have "stamps e ((message, a, b) # calls) = a # stamps e calls" using True by (simp add: stamps_def)
  with assms(1) have "chronological now (map md_timestamp (messageStore st @ [?md])) (stamps e calls)"
    by (simp add: chronological_def)
  then have "chronological now (map md_timestamp (filter ?P (messageStore st @ [?md]))) (stamps e calls)"
    by (rule chronological_filter)
  with st' ld show ?thesis by simp
qed

lemma recordCalls_chronological:
  "chronological now (map md_timestamp (messageStore st)) (stamps e calls) \<Longrightarrow>
   loadMessages st = messageStore st \<Longrightarrow>
   chronological now (map md_timestamp (loadMessages (recordCalls e calls st))) []"
proof (induction calls arbitrary: st)
  case Nil
  then show ?case by (simp add: recordCalls_def stamps_def)
next
  case (Cons call calls)
  obtain message a b where call: "call = (message, a, b)" by (cases call) auto
  have step: "recordCalls e (call # calls) st = recordCalls e calls (handleMessageCreate e message a b st)"
    by (simp add: recordCalls_def call)
  from handleMessageCreate_chronological[OF Cons.prems(1)[unfolded call] Cons.prems(2)]
  show ?case unfolding step by (intro Cons.IH) simp_all
qed

lemma onMessageCreate_chronological:
  assumes "chronological now (map md_timestamp store) (stamps_local e ((message, t) # calls))"
  shows "chronological now (map md_timestamp (onMessageCreate e message t store)) (stamps_local e calls)"
proof (cases "lm_channelId message = CHANNEL_ID e \<and> \<not> lm_author_bot message")
  case False
  then have "onMessageCreate e message t store = store" by (auto simp: onMessageCreate_def)
  moreover have "stamps_local e ((message, t) # calls) = stamps_local e calls"
    using False by (auto simp: stamps_local_def)
  ultimately show ?thesis using assms by simp
next
  case True
  let ?md = "\<lparr> md_id = lm_id message, md_content = lm_content message,
                 md_author = lm_author_username message, md_authorId = lm_author_id message,
                 md_timestamp = lm_createdTimestamp message, md_channelId = lm_channelId message \<rparr>"
  let ?P = "before (cutoffTime t (SUMMARY_INTERVAL e))"
  have st': "onMessageCreate e message t store = dropWhile ?P (store @ [?md])"
    using True by (simp add: onMessageCreate_def Let_def)
  have "stamps_local e ((message, t) # calls) = lm_createdTimestamp message # stamps_local e calls"
    using True by (simp add: stamps_local_def)
  with assms have "chronological now (map md_timestamp (store @ [?md])) (stamps_local e calls)"
    by (simp add: chronological_def)
  then have "chronological now (map md_timestamp (dropWhile ?P (store @ [?md]))) (stamps_local e calls)"
    by (rule chronological_dropWhile)
  with st' show ?thesis by simp
qed

lemma recordCalls_local_chronological:
  "chronological now (map md_timestamp store) (stamps_local e calls) \<Longrightarrow>
   chronological now (map md_timestamp (recordCalls_local e calls store)) []"
proof (induction calls arbitrary: store)
  case Nil
  then show ?case by (simp add: recordCalls_local_def stamps_local_def)
next
  case (Cons call calls)
  obtain message t where call: "call = (message, t)" by (cases call) auto
  have step: "recordCalls_local e (call # calls) store = recordCalls_local e calls (onMessageCreate e message t store)"
    by (simp add: recordCalls_local_def call)
  from onMessageCreate_chronological[OF Cons.prems(1)[unfolded call]]
  show ?case unfolding step by (rule Cons.IH)
qed

lemma recentMessages_NaN: "SUMMARY_INTERVAL e = None \<Longrightarrow> recentMessages e now store = []"
  by (simp add: recentMessages_def cutoffTime_def notBefore_def)

text \<open>
  C2, as stated, fails: the selection has a lower bound only and keeps the order of
  arrival. In the local variant the timestamp is the creation time that the message
  carries: a message created at 1001 and recorded when the local clock reads 1000 is
  selected at 1000, outside the closed interval; messages created at 900 and 800, in
  this order of arrival, are selected in this order.
\<close>

theorem window_closed_interval_counterexample:
  "map md_timestamp (recentMessages env0 1000 (recordCalls_local env0 [(created_at 1001, 1000)] [])) = [1001] \<and>
   filter (\<lambda>m. 1000 - 24 * 3600000 \<le> md_timestamp m \<and> md_timestamp m \<le> 1000)
     (recordCalls_local env0 [(created_at 1001, 1000)] []) = [] \<and>
   map md_timestamp (recentMessages env0 1000
     (recordCalls_local env0 [(created_at 900, 950), (created_at 800, 960)] [])) = [900, 800]"
  by (simp add: recordCalls_local_def onMessageCreate_def created_at_def env0_def cutoffTime_def
        before_def notBefore_def recentMessages_def)

text \<open>
  C2, amended: for every sequence of record calls whose recorded timestamps are in
  ascending order and not after \<open>now\<close>, followed by a window selection at \<open>now\<close> with a
  duration of \<open>h\<close> hours, the selected events are exactly the stored events with a
  timestamp in the closed interval from \<open>now\<close> minus the duration to \<open>now\<close>, in ascending
  order of timestamp. This holds for the gateway variants, which stamp with the clock, and
  for the local variant.
\<close>

theorem window_closed_interval_when_chronological:
  assumes "SUMMARY_INTERVAL e = Some h"
    and "sorted (stamps e calls)" and "\<forall>t\<in>set (stamps e calls). t \<le> now"
    and "sorted (stamps_local e lcalls)" and "\<forall>t\<in>set (stamps_local e lcalls). t \<le> now"
  shows "(let stored = loadMessages (recordCalls e calls constructor);
              selected = recentMessages e now stored
          in selected = filter (\<lambda>m. now - h * 3600000 \<le> md_timestamp m \<and> md_timestamp m \<le> now) stored
             \<and> sorted (map md_timestamp selected)) \<and>
         (let stored = recordCalls_local e lcalls [];
              selected = recentMessages e now stored
          in selected = filter (\<lambda>m. now - h * 3600000 \<le> md_timestamp m \<and> md_timestamp m \<le> now) stored
             \<and> sorted (map md_timestamp selected))"
proof -
  have "chronological now (map md_timestamp (messageStore constructor)) (stamps e calls)"
    using assms(2,3) by (simp add: chronological_def constructor_def)
  moreover have "loadMessages constructor = messageStore constructor"
    by (simp add: loadMessages_def constructor_def)
  ultimately have "chronological now (map md_timestamp (loadMessages (recordCalls e calls constructor))) []"
    by (rule recordCalls_chronological)
  then have g: "sorted (map md_timestamp (loadMessages (recordCalls e calls constructor)))"
    "\<forall>m\<in>set (loadMessages (recordCalls e calls constructor)). md_timestamp m \<le> now"
    by (simp_all add: chronological_def)
  have "chronological now (map md_timestamp []) (stamps_local e lcalls)"
    using assms(4,5) by (simp add: chronological_def)
  then have "chronological now (map md_timestamp (recordCalls_local e lcalls [])) []"
    by (rule recordCalls_local_chronological)
  then have l: "sorted (map md_timestamp (recordCalls_local e lcalls []))"
    "\<forall>m\<in>set (recordCalls_local e lcalls []). md_timestamp m \<le> now"
    by (simp_all add: chronological_def)
  from recentMessages_closed_interval[OF assms(1) g] recentMessages_closed_interval[OF assms(1) l]
  show ?thesis unfolding Let_def by blast
qed

theorem window_closed_interval_when_chronological_witness:
  "SUMMARY_INTERVAL env0 = Some 24 \<and> stamps env0 two_calls = [1000, 2000] \<and>
   stamps_local env0 two_calls_local = [1000, 2000] \<and>
   recentMessages env0 3000 (loadMessages (recordCalls env0 two_calls constructor)) =
     filter (\<lambda>m. 3000 - 24 * 3600000 \<le> md_timestamp m \<and> md_timestamp m \<le> 3000)
       (loadMessages (recordCalls env0 two_calls constructor)) \<and>
   sorted (map md_timestamp (recentMessages env0 3000 (loadMessages (recordCalls env0 two_calls constructor)))) \<and>
   map md_timestamp (recentMessages env0 3000 (loadMessages (recordCalls env0 two_calls constructor))) = [1000, 2000] \<and>
   recentMessages env0 3000 (recordCalls_local env0 two_calls_local []) =
     filter (\<lambda>m. 3000 - 24 * 3600000 \<le> md_timestamp m \<and> md_timestamp m \<le> 3000)
       (recordCalls_local env0 two_calls_local []) \<and>
   sorted (map md_timestamp (recentMessages env0 3000 (recordCalls_local env0 two_calls_local [])))"
proof -
  have i: "SUMMARY_INTERVAL env0 = Some 24" by (simp add: env0_def)
  have s: "stamps env0 two_calls = [1000, 2000]"
    by (simp add: stamps_def two_calls_def message_with_def env0_def)
  have sl: "stamps_local env0 two_calls_local = [1000, 2000]"
    by (simp add: stamps_local_def two_calls_local_def created_at_def env0_def)
  have v: "map md_timestamp (recentMessages env0 3000 (loadMessages (recordCalls env0 two_calls constructor))) = [1000, 2000]"
    by (simp add: recordCalls_def two_calls_def handleMessageCreate_def message_with_def env0_def
          constructor_def loadMessages_def cutoffTime_def notBefore_def recentMessages_def Let_def)
  have h2: "sorted (stamps env0 two_calls)" and h3: "\<forall>t\<in>set (stamps env0 two_calls). t \<le> 3000"
    by (simp_all add: s)
  have h4: "sorted (stamps_local env0 two_calls_local)"
    and h5: "\<forall>t\<in>set (stamps_local env0 two_calls_local). t \<le> 3000"
    by (simp_all add: sl)
  note w = window_closed_interval_when_chronological[OF i h2 h3 h4 h5, unfolded Let_def]
  from w i s sl v show ?thesis by blast
qed

section \<open>Properties of the delivery\<close>

lemma sendDiscordMessage_not_rejected:
  "respond (length reqs) \<noteq> Rejected \<Longrightarrow>
   sendDiscordMessage respond reqs content = (reqs @ [PostMessage content], Inr ())"
  by (cases "respond (length reqs)") (simp_all add: sendDiscordMessage_def)

text \<open>
  In the gateway variants the status of a response changes nothing: as long as no
  \<open>fetch\<close> is rejected, the same requests are issued as when every response is 200, and
  \<open>sendLongMessage\<close> returns normally.
\<close>

lemma sendLongLoop_status_ignored:
  "\<forall>k. respond k \<noteq> Rejected \<Longrightarrow>
   sendLongLoop respond maxLength lines currentChunk reqs =
   sendLongLoop (\<lambda>k. Response 200) maxLength lines currentChunk reqs"
proof (induction lines arbitrary: currentChunk reqs)
  case Nil
  show ?case by simp
next
  case (Cons line lines)
  note r = sendDiscordMessage_not_rejected
  have a: "\<And>reqs c. sendDiscordMessage respond reqs c = (reqs @ [PostMessage c], Inr ())"
    using Cons.prems by (simp add: r)
  have b: "\<And>reqs c. sendDiscordMessage (\<lambda>k. Response 200) reqs c = (reqs @ [PostMessage c], Inr ())"
    by (simp add: r)
  show ?case by (simp add: a b Cons.IH[OF Cons.prems])
qed

lemma sendLongLoop_returns:
  "\<forall>k. respond k \<noteq> Rejected \<Longrightarrow>
   \<exists>reqs' currentChunk'. sendLongLoop respond maxLength lines currentChunk reqs = (reqs', Inr currentChunk')"
proof (induction lines arbitrary: currentChunk reqs)
  case Nil
  show ?case by simp
next
  case (Cons line lines)
  have a: "\<And>reqs c. sendDiscordMessage respond reqs c = (reqs @ [PostMessage c], Inr ())"
    using Cons.prems by (simp add: sendDiscordMessage_not_rejected)
  show ?case using Cons.IH[OF Cons.prems] by (simp add: a)
qed

lemma sendLongMessage_status_ignored:
  assumes "\<forall>k. respond k \<noteq> Rejected"
  shows "sendLongMessage respond reqs content = sendLongMessage (\<lambda>k. Response 200) reqs content"
    and "\<exists>reqs'. sendLongMessage respond reqs content = (reqs', Inr ())"
proof -
  have a: "\<And>reqs c. sendDiscordMessage respond reqs c = (reqs @ [PostMessage c], Inr ())"
    using assms by (simp add: sendDiscordMessage_not_rejected)
  have b: "\<And>reqs c. sendDiscordMessage (\<lambda>k. Response 200) reqs c = (reqs @ [PostMessage c], Inr ())"
    by (simp add: sendDiscordMessage_not_rejected)
  show "sendLongMessage respond reqs content = sendLongMessage (\<lambda>k. Response 200) reqs content"
    by (simp add: sendLongMessage_def a b sendLongLoop_status_ignored[OF assms] split: prod.split sum.split)
  obtain reqs' cur where "sendLongLoop respond 2000 (js_split content LF) [] reqs = (reqs', Inr cur)"
    using sendLongLoop_returns[OF assms] by blast
  then show "\<exists>reqs'. sendLongMessage respond reqs content = (reqs', Inr ())"
    by (simp add: sendLongMessage_def a)
qed

text \<open>
  So \<open>sendSummary\<close> cannot tell responses that report a failure from successful ones:
  it has the same effects, and logs no error.
\<close>

lemma sendSummary_status_ignored:
  assumes "\<forall>k. respond k \<noteq> Rejected"
  shows "effects (sendSummary e toLocaleTimeString respond now st) =
         effects (sendSummary e toLocaleTimeString (\<lambda>k. Response 200) now st)"
proof -
  obtain status where r0: "respond 0 = Response status"
    using assms by (cases "respond 0") auto
  show ?thesis
    by (simp add: sendSummary_def Let_def r0 sendLongMessage_status_ignored(1)[OF assms])
qed

text \<open>
  The polling worker stops at the first chunk whose send does not succeed: the requests
  issued are the chunks up to that one, and the error is returned.
\<close>

lemma sendChunks_stops_at_failure:
  "sendChunks respond chunks reqs = (reqs', Inl err) \<Longrightarrow>
   \<exists>n < length chunks. reqs' = reqs @ map PostMessage (take (Suc n) chunks) \<and>
      \<not> ok (respond (length reqs + n)) \<and>
      err = (case respond (length reqs + n) of Rejected \<Rightarrow> NetworkError | Response status \<Rightarrow> SendFailed status)"
proof (induction chunks arbitrary: reqs)
  case Nil
  then show ?case by simp
next
  case (Cons chunk chunks)
  show ?case
  proof (cases "ok (respond (length reqs))")
    case False
    with Cons.prems have "reqs' = reqs @ [PostMessage chunk] \<and>
        err = (case respond (length reqs) of Rejected \<Rightarrow> NetworkError | Response status \<Rightarrow> SendFailed status)"
      by (cases "respond (length reqs)") (auto split: if_splits)
    with False have "0 < length (chunk # chunks) \<and> reqs' = reqs @ map PostMessage (take (Suc 0) (chunk # chunks)) \<and>
      \<not> ok (respond (length reqs + 0)) \<and>
      err = (case respond (length reqs + 0) of Rejected \<Rightarrow> NetworkError | Response status \<Rightarrow> SendFailed status)"
      by simp
    then show ?thesis by blast
  next
    case True
    then obtain status where st: "respond (length reqs) = Response status" by (cases "respond (length reqs)") auto
    with True Cons.prems have "sendChunks respond chunks (reqs @ [PostMessage chunk]) = (reqs', Inl err)"
      by simp
    from Cons.IH[OF this] obtain n where n: "n < length chunks"
      "reqs' = (reqs @ [PostMessage chunk]) @ map PostMessage (take (Suc n) chunks)"
      "\<not> ok (respond (length (reqs @ [PostMessage chunk]) + n))"
      "err = (case respond (length (reqs @ [PostMessage chunk]) + n) of Rejected \<Rightarrow> NetworkError | Response status \<Rightarrow> SendFailed status)"
      by blast
    then have "Suc n < length (chunk # chunks) \<and>
      reqs' = reqs @ map PostMessage (take (Suc (Suc n)) (chunk # chunks)) \<and>
      \<not> ok (respond (length reqs + Suc n)) \<and>
      err = (case respond (length reqs + Suc n) of Rejected \<Rightarrow> NetworkError | Response status \<Rightarrow> SendFailed status)"
      by simp
    then show ?thesis by blast
  qed
qed

lemma split_two_long_lines: "js_split two_long_lines LF = [replicate 1500 0x61, replicate 1500 0x62]"
proof -
  have "js_split (replicate 1500 0x62) LF = [replicate 1500 0x62]"
    by (rule js_split_no_sep) (simp add: LF_def)
  then show ?thesis unfolding two_long_lines_def
    by (subst js_split_append_sep) (simp_all add: LF_def)
qed

lemma splitMessage_two_long_lines:
  "splitMessage two_long_lines 2000 = [replicate 1500 0x61, replicate 1500 0x62]"
proof -
  have l: "length two_long_lines = 3001" by (simp add: two_long_lines_def)
  have ta: "trim (replicate 1500 0x61) = replicate 1500 0x61" by (rule trim_id) (simp_all add: ws_a)
  have tb: "trim (replicate 1500 0x62) = replicate 1500 0x62" by (rule trim_id) (simp_all add: ws_b)
  show ?thesis
    by (simp add: splitMessage_def l split_two_long_lines safeLine_def pushTrimmed_def ta tb)
qed

text \<open>
  The polling worker on content of two chunks when the first send is answered with 500:
  the second chunk is not sent and the error is returned.
\<close>

lemma sendDirectMessage_aborts:
  "sendDirectMessage (\<lambda>k. if k = 1 then Response 500 else Response 200) (ascii ''7'') two_long_lines =
     ([CreateDM (ascii ''7''), PostMessage (replicate 1500 0x61)], Inl (SendFailed 500))"
  by (simp add: sendDirectMessage_def splitMessage_two_long_lines)

text \<open>
  C7 on the gateway variants: with the same content and every send answered with 500,
  \<open>sendLongMessage\<close> issues the requests for both chunks and returns normally.
\<close>

theorem sendLongMessage_ignores_failed_send:
  "sendLongMessage (\<lambda>k. Response 500) [CreateDM (ascii ''7'')] two_long_lines =
     ([CreateDM (ascii ''7''), PostMessage (replicate 1500 0x61 @ [LF]),
       PostMessage (replicate 1500 0x62 @ [LF])], Inr ())"
proof -
  have l: "length two_long_lines = 3001" by (simp add: two_long_lines_def)
  show ?thesis
    by (simp add: sendLongMessage_def l split_two_long_lines sendDiscordMessage_def)
qed

text \<open>
  The chunker of the gateway variants puts a line of exactly 2000 units and its line feed
  into one message of 2001 units.
\<close>

lemma sendLongMessage_chunk_of_2001:
  "sendLongMessage (\<lambda>k. Response 200) [] two_lines_flush =
     ([PostMessage (replicate 2000 0x61 @ [LF]), PostMessage [0x62, LF]], Inr ()) \<and>
   length (replicate 2000 (0x61 :: unit16) @ [LF]) = 2001"
proof -
  have l: "length two_lines_flush = 2002" by (simp add: two_lines_flush_def)
  show ?thesis
    by (simp add: sendLongMessage_def l split_two_lines_flush sendDiscordMessage_def)
qed

section \<open>Properties of the scheduler\<close>

lemma utcDayStart_le: "utcDayStart t \<le> t" and utcDayStart_gt: "t < utcDayStart t + msPerDay"
proof -
  have "0 \<le> t mod msPerDay" "t mod msPerDay < msPerDay" by (simp_all add: msPerDay_def)
  moreover have "t = (t div msPerDay) * msPerDay + t mod msPerDay" by simp
  ultimately show "utcDayStart t \<le> t" "t < utcDayStart t + msPerDay"
    unfolding utcDayStart_def by linarith+
qed

text \<open>
  For a configured hour from 1 to 23 the alarm is set for today at that hour if that is
  after \<open>now\<close> and for tomorrow at that hour otherwise, and it is after \<open>now\<close>.
\<close>

lemma nextSummary_configured_hour:
  assumes "SUMMARY_TIME_HOUR e = Some H" "1 \<le> H" "H \<le> 23"
  shows "nextSummary e now now =
           (if now < utcDayStart now + H * msPerHour then utcDayStart now + H * msPerHour
            else utcDayStart now + msPerDay + H * msPerHour)"
    and "now < nextSummary e now now"
proof -
  have h: "summaryHour e = H" using assms by (simp add: summaryHour_def)
  show "nextSummary e now now =
           (if now < utcDayStart now + H * msPerHour then utcDayStart now + H * msPerHour
            else utcDayStart now + msPerDay + H * msPerHour)"
    by (simp add: nextSummary_def h setUTCHours_def Let_def)
  have "0 \<le> H * msPerHour" using assms(2) by (simp add: msPerHour_def)
  then show "now < nextSummary e now now"
    using utcDayStart_gt[of now] by (simp add: nextSummary_def h setUTCHours_def Let_def)
qed

text \<open>The two examples: 09:30 and 08:30 on the first day of the epoch, target hour 9.\<close>

lemma nextSummary_examples:
  "nextSummary env0 (9 * msPerHour + 30 * 60000) (9 * msPerHour + 30 * 60000) = msPerDay + 9 * msPerHour"
  "nextSummary env0 (8 * msPerHour + 30 * 60000) (8 * msPerHour + 30 * 60000) = 9 * msPerHour"
  by (simp_all add: nextSummary_def summaryHour_def env0_def setUTCHours_def utcDayStart_def
        msPerHour_def msPerDay_def)

text \<open>
  The variant whose \<open>alarm\<close> calls \<open>scheduleNextSummary\<close>: an alarm that fires at or after
  its time \<open>T\<close> sets the next alarm after \<open>T\<close>.
\<close>

lemma alarm_moves_forward:
  assumes "SUMMARY_TIME_HOUR e = Some H" "1 \<le> H" "H \<le> 23" "T \<le> now"
  shows "last (effects (alarm e toLocaleTimeString respond now1 now now st)) = SetAlarm (nextSummary e now now)"
    and "T < nextSummary e now now"
proof -
  show "T < nextSummary e now now" using nextSummary_configured_hour(2)[OF assms(1-3), of now] assms(4) by simp
  show "last (effects (alarm e toLocaleTimeString respond now1 now now st)) = SetAlarm (nextSummary e now now)"
    by (simp add: alarm_def scheduleNextSummary_def emit_def)
qed

text \<open>
  The variant whose \<open>alarm\<close> is the keep-alive, on the run \<open>ka_listening\<close>: the hello frame
  has set the alarm for 09:00. The alarm at 09:00:00 delivers a digest and sets the next
  alarm for 09:00:30, and that alarm delivers the digest again.
\<close>

lemma ka_listening_effects:
  "effects ka_listening =
     [Http GetGateway, NewWebSocket, SetAlarm 31000, SetInterval 41250,
      WsSend (Identify (ascii ''token'') 513), SetAlarm (9 * msPerHour)]"
  "storage_botEnabled ka_listening = Some True" "testMode ka_listening = False"
  "ws ka_listening = Some OPEN"
  "map md_timestamp (loadMessages ka_listening) = [3000]"
  by (simp_all add: ka_listening_def handleGatewayMessage_def create_frame_def hello_frame_def
        handleEvent_def handleMessageCreate_def message_with_def env0_def onOpen_def start_ka_def
        scheduleKeepAlive_def connectToGateway_ka_def constructor_ka_def constructor_def emit_def
        bot.extend_def kbot.fields_def startHeartbeat_def identify_def scheduleNextSummary_def
        nextSummary_def summaryHour_def setUTCHours_def utcDayStart_def msPerHour_def msPerDay_def
        cutoffTime_def notBefore_def loadMessages_def Let_def ascii_def)

lemma alarm_ka_delivers_twice:
  "digests (effects ka_listening) = 0"
  "digests (effects (alarm_ka env0 noon (\<lambda>k. Response 200) True (9 * msPerHour) (9 * msPerHour) (9 * msPerHour)
      ka_listening)) = 1"
  "last (effects (alarm_ka env0 noon (\<lambda>k. Response 200) True (9 * msPerHour) (9 * msPerHour) (9 * msPerHour)
      ka_listening)) = SetAlarm (9 * msPerHour + 30000)"
  "digests (effects (alarm_ka env0 noon (\<lambda>k. Response 200) True
      (9 * msPerHour + 30000) (9 * msPerHour + 30000) (9 * msPerHour + 30000)
      (alarm_ka env0 noon (\<lambda>k. Response 200) True (9 * msPerHour) (9 * msPerHour) (9 * msPerHour)
        ka_listening))) = 2"
  by (simp_all add: ka_listening_def handleGatewayMessage_def create_frame_def hello_frame_def
        handleEvent_def handleMessageCreate_def message_with_def env0_def onOpen_def start_ka_def
        scheduleKeepAlive_def connectToGateway_ka_def constructor_ka_def constructor_def emit_def
        bot.extend_def kbot.fields_def startHeartbeat_def identify_def scheduleNextSummary_def
        nextSummary_def summaryHour_def setUTCHours_def utcDayStart_def msPerHour_def msPerDay_def
        cutoffTime_def notBefore_def loadMessages_def Let_def ascii_def
        alarm_ka_def getUTCHours_def getUTCMinutes_def sendSummary_def recentMessages_def
        formatSummary_def formatLine_def lineContent_def showNumber_def noon_def trim_def
        isWhiteSpace_def sendLongMessage_def sendDiscordMessage_def)

text \<open>
  C5 on the code: with the target hour 0 configured and the clock at 08:30 the alarm is
  set for 09:00 of the same day, where the claim has midnight of the next day.
\<close>

theorem nextSummary_hour_zero:
  "SUMMARY_TIME_HOUR env_midnight = Some 0 \<and>
   nextSummary env_midnight (8 * msPerHour + 30 * 60000) (8 * msPerHour + 30 * 60000) = 9 * msPerHour \<and>
   utcDayStart (8 * msPerHour + 30 * 60000) + msPerDay + 0 * msPerHour = msPerDay \<and>
   9 * msPerHour \<noteq> msPerDay"
  by (simp add: nextSummary_def summaryHour_def env_midnight_def env0_def setUTCHours_def utcDayStart_def
        msPerHour_def msPerDay_def)

section \<open>Properties of the gateway session\<close>

subsection \<open>The effects of each handler\<close>

lemma effects_emit [simp]: "effects (emit es st) = effects st @ es"
  by (simp add: emit_def)

lemma emit_fields [simp]:
  "ws (emit es st) = ws st" "heartbeatInterval (emit es st) = heartbeatInterval st"
  "sessionId (emit es st) = sessionId st" "sequenceNumber (emit es st) = sequenceNumber st"
  "messageStore (emit es st) = messageStore st" "reconnectAttempts (emit es st) = reconnectAttempts st"
  "isConnecting (emit es st) = isConnecting st" "reconnectTimeout (emit es st) = reconnectTimeout st"
  "storage_messages (emit es st) = storage_messages st"
  by (simp_all add: emit_def)

lemma handleMessageCreate_effects [simp]:
  "effects (handleMessageCreate e message now1 now2 st) = effects st"
  by (simp add: handleMessageCreate_def Let_def)

lemma handleEvent_effects [simp]:
  "effects (handleEvent e eventType data now1 now2 st) = effects st"
  by (simp add: handleEvent_def split: frame_data.split)

lemma handleGatewayMessage_effects:
  "effects (handleGatewayMessage e data now1 now2 st) = effects st @
     (if f_op data = 10 then
        (if heartbeatInterval st \<noteq> None then [ClearInterval] else [])
        @ [SetInterval (heartbeat_interval (f_d data))]
        @ (if ws st = Some OPEN then [WsSend (Identify (DISCORD_TOKEN e) 513)] else [])
        @ [SetAlarm (nextSummary e now1 now2)]
      else if f_op data = 1 \<and> ws st = Some OPEN then
        [WsSend (Heartbeat (case f_s data of None \<Rightarrow> sequenceNumber st | Some s \<Rightarrow> Some s))]
      else [])"
  by (cases "heartbeatInterval st"; cases "f_s data")
     (simp_all add: handleGatewayMessage_def scheduleNextSummary_def identify_def startHeartbeat_def
        sendHeartbeat_def Let_def)

lemma cleanup_effects:
  "effects (cleanup st) = effects st @
     (if heartbeatInterval st \<noteq> None then [ClearInterval] else [])
     @ (if reconnectTimeout st \<noteq> None then [ClearTimeout] else [])"
  by (simp add: cleanup_def Let_def)

lemma cleanup_reconnectAttempts [simp]: "reconnectAttempts (cleanup st) = reconnectAttempts st"
  by (simp add: cleanup_def Let_def emit_def)

lemma onClose_effects:
  "effects (onClose st) = effects st @
     (if heartbeatInterval st \<noteq> None then [ClearInterval] else [])
     @ (if reconnectTimeout st \<noteq> None then [ClearTimeout] else [])
     @ [SetTimeout (backoffDelay (reconnectAttempts st + 1))]"
  by (simp add: onClose_def scheduleReconnect_def Let_def cleanup_effects)

lemma onClose_reconnectAttempts [simp]: "reconnectAttempts (onClose st) = reconnectAttempts st + 1"
  by (simp add: onClose_def scheduleReconnect_def Let_def emit_def)

lemma connectToGateway_effects:
  "effects (connectToGateway gatewayOk st) = effects st @
     (if ws st \<noteq> None \<or> isConnecting st then []
      else if gatewayOk then [Http GetGateway, NewWebSocket]
      else [Http GetGateway, SetTimeout (backoffDelay (reconnectAttempts st + 1))])"
  by (simp add: connectToGateway_def scheduleReconnect_def Let_def)

lemma connectToGateway_reconnectAttempts:
  "reconnectAttempts (connectToGateway gatewayOk st) =
     (if ws st \<noteq> None \<or> isConnecting st \<or> gatewayOk then reconnectAttempts st
      else reconnectAttempts st + 1)"
  by (simp add: connectToGateway_def scheduleReconnect_def Let_def emit_def)

lemma sendSummary_effects:
  "\<exists>reqs errs. effects (sendSummary e toLocaleTimeString respond now st) =
      effects st @ map Http reqs @ map ConsoleError errs"
proof -
  let ?recent = "recentMessages e now (loadMessages st)"
  show ?thesis
  proof (cases "?recent = []")
    case True
    then have "effects (sendSummary e toLocaleTimeString respond now st) = effects st @ map Http [] @ map ConsoleError []"
      by (simp add: sendSummary_def Let_def)
    then show ?thesis by blast
  next
    case False
    show ?thesis
    proof (cases "respond 0")
      case Rejected
      with False have "effects (sendSummary e toLocaleTimeString respond now st) =
          effects st @ map Http [CreateDM (USER_ID e)] @ map ConsoleError [NetworkError]"
        by (simp add: sendSummary_def Let_def)
      then show ?thesis by blast
    next
      case (Response status)
      obtain reqs res where r: "sendLongMessage respond [CreateDM (USER_ID e)]
          (formatSummary toLocaleTimeString ?recent (SUMMARY_INTERVAL e)) = (reqs, res)" by fastforce
      show ?thesis
      proof (cases res)
        case (Inl err)
        with False Response r have "effects (sendSummary e toLocaleTimeString respond now st) =
            effects st @ map Http reqs @ map ConsoleError [err]"
          by (simp add: sendSummary_def Let_def)
        then show ?thesis by blast
      next
        case (Inr u)
        with False Response r have "effects (sendSummary e toLocaleTimeString respond now st) =
            effects st @ map Http reqs @ map ConsoleError []"
          by (simp add: sendSummary_def Let_def)
        then show ?thesis by blast
      qed
    qed
  qed
qed

lemma sendSummary_reconnectAttempts [simp]:
  "reconnectAttempts (sendSummary e toLocaleTimeString respond now st) = reconnectAttempts st"
  by (simp add: sendSummary_def Let_def emit_def split: http_result.split prod.split sum.split)

lemma alarm_effects:
  "\<exists>reqs errs. effects (alarm e toLocaleTimeString respond now1 now2 now3 st) =
      effects st @ map Http reqs @ map ConsoleError errs @ [SetAlarm (nextSummary e now2 now3)]"
  using sendSummary_effects[of e toLocaleTimeString respond now1 st]
  by (auto simp: alarm_def scheduleNextSummary_def)

lemma handleGatewayMessage_reconnectAttempts [simp]:
  "reconnectAttempts (handleGatewayMessage e data now1 now2 st) = reconnectAttempts st"
  by (simp add: handleGatewayMessage_def scheduleNextSummary_def identify_def startHeartbeat_def
        sendHeartbeat_def handleEvent_def handleMessageCreate_def Let_def emit_def
        split: option.split frame_data.split)

subsection \<open>Identify and the heartbeat timer\<close>

lemma timerRunning_append: "timerRunning r (xs @ ys) = timerRunning (timerRunning r xs) ys"
  by (induction r xs rule: timerRunning.induct) simp_all

lemma identifyGuarded_append:
  "identifyGuarded r (xs @ ys) = (identifyGuarded r xs \<and> identifyGuarded (timerRunning r xs) ys)"
  by (induction r xs rule: identifyGuarded.induct) (simp_all add: timerRunning_append)

lemma timerRunning_Http [simp]: "timerRunning r (map Http reqs) = r"
  by (induction reqs) simp_all

lemma timerRunning_ConsoleError [simp]: "timerRunning r (map ConsoleError errs) = r"
  by (induction errs) simp_all

lemma identifyGuarded_Http [simp]: "identifyGuarded r (map Http reqs)"
  by (induction reqs) simp_all

lemma identifyGuarded_ConsoleError [simp]: "identifyGuarded r (map ConsoleError errs)"
  by (induction errs) simp_all

lemma step_guarded:
  "\<exists>new. effects (step e st ev) = effects st @ new \<and> (\<forall>r. identifyGuarded r new)"
proof (cases ev)
  case (Start gatewayOk)
  then show ?thesis by (simp add: connectToGateway_effects)
next
  case (ReconnectTimer gatewayOk)
  then show ?thesis by (simp add: connectToGateway_effects)
next
  case WsOpened
  then show ?thesis by (simp add: onOpen_def)
next
  case (WsMessage data now1 now2)
  then show ?thesis by (simp add: handleGatewayMessage_effects)
next
  case WsErrored
  then show ?thesis by (simp add: onError_def)
next
  case WsClosed
  then show ?thesis by (simp add: onClose_effects)
next
  case HeartbeatTick
  then show ?thesis by (simp add: sendHeartbeat_def)
next
  case (Alarm toLocaleTimeString respond now1 now2 now3)
  obtain reqs errs where "effects (alarm e toLocaleTimeString respond now1 now2 now3 st) =
      effects st @ map Http reqs @ map ConsoleError errs @ [SetAlarm (nextSummary e now2 now3)]"
    using alarm_effects by blast
  with Alarm show ?thesis by (simp add: identifyGuarded_append)
qed

lemma run_Cons: "run e st (ev # evs) = run e (step e st ev) evs"
  by (simp add: run_def)

lemma run_guarded:
  "identifyGuarded False (effects st) \<Longrightarrow> identifyGuarded False (effects (run e st evs))"
proof (induction evs arbitrary: st)
  case Nil
  then show ?case by (simp add: run_def)
next
  case (Cons ev evs)
  obtain new where "effects (step e st ev) = effects st @ new" "\<forall>r. identifyGuarded r new"
    using step_guarded by blast
  with Cons.prems have "identifyGuarded False (effects (step e st ev))"
    by (simp add: identifyGuarded_append)
  then show ?case unfolding run_Cons by (rule Cons.IH)
qed

text \<open>
  C3: handling a hello frame that carries a heartbeat interval starts the heartbeat timer
  with that interval (after clearing a timer that runs already), then sends identify if
  the socket is open, then sets the alarm; the timer is running afterwards. In every run
  of the object from its construction each identify frame is sent while the heartbeat
  timer is running.
\<close>

theorem heartbeat_started_before_identify:
  assumes "f_op data = 10" and "f_d data = DHello interval"
  shows "effects (handleGatewayMessage e data now1 now2 st) =
           effects st
           @ (if heartbeatInterval st \<noteq> None then [ClearInterval] else [])
           @ [SetInterval interval]
           @ (if ws st = Some OPEN then [WsSend (Identify (DISCORD_TOKEN e) 513)] else [])
           @ [SetAlarm (nextSummary e now1 now2)]
         \<and> heartbeatInterval (handleGatewayMessage e data now1 now2 st) = Some interval
         \<and> identifyGuarded False (effects (run e constructor evs))"
proof (intro conjI)
  show "effects (handleGatewayMessage e data now1 now2 st) =
           effects st
           @ (if heartbeatInterval st \<noteq> None then [ClearInterval] else [])
           @ [SetInterval interval]
           @ (if ws st = Some OPEN then [WsSend (Identify (DISCORD_TOKEN e) 513)] else [])
           @ [SetAlarm (nextSummary e now1 now2)]"
    using assms by (simp add: handleGatewayMessage_effects)
  show "heartbeatInterval (handleGatewayMessage e data now1 now2 st) = Some interval"
    using assms
    by (simp add: handleGatewayMessage_def scheduleNextSummary_def identify_def startHeartbeat_def Let_def)
  have "identifyGuarded False (effects constructor)" by (simp add: constructor_def)
  then show "identifyGuarded False (effects (run e constructor evs))" by (rule run_guarded)
qed

theorem heartbeat_started_before_identify_witness:
  "f_op hello_frame = 10 \<and> f_d hello_frame = DHello 41250 \<and>
   effects (handleGatewayMessage env0 hello_frame 2000 2000 (run env0 constructor [Start True, WsOpened])) =
     [Http GetGateway, NewWebSocket, SetInterval 41250, WsSend (Identify (ascii ''token'') 513),
      SetAlarm (9 * msPerHour)] \<and>
   identifyGuarded False
     (effects (run env0 constructor [Start True, WsOpened, WsMessage hello_frame 2000 2000]))"
proof -
  have a: "f_op hello_frame = 10" and b: "f_d hello_frame = DHello 41250"
    by (simp_all add: hello_frame_def)
  have st: "effects (run env0 constructor [Start True, WsOpened]) = [Http GetGateway, NewWebSocket]"
    "heartbeatInterval (run env0 constructor [Start True, WsOpened]) = None"
    "ws (run env0 constructor [Start True, WsOpened]) = Some OPEN"
    by (simp_all add: run_def connectToGateway_def onOpen_def constructor_def Let_def)
  have n: "nextSummary env0 2000 2000 = 9 * msPerHour"
    by (simp add: nextSummary_def summaryHour_def env0_def setUTCHours_def utcDayStart_def
          msPerHour_def msPerDay_def)
  have t: "DISCORD_TOKEN env0 = ascii ''token''" by (simp add: env0_def)
  from heartbeat_started_before_identify[OF a b, of env0 2000 2000
      "run env0 constructor [Start True, WsOpened]"
      "[Start True, WsOpened, WsMessage hello_frame 2000 2000]"]
  show ?thesis by (simp add: a b st n t)
qed

subsection \<open>The reconnect counter and the backoff\<close>

lemma reconnectDelays_append: "reconnectDelays (xs @ ys) = reconnectDelays xs @ reconnectDelays ys"
  by (induction xs rule: reconnectDelays.induct) simp_all

lemma reconnectDelays_Http [simp]: "reconnectDelays (map Http reqs) = []"
  by (induction reqs) simp_all

lemma reconnectDelays_ConsoleError [simp]: "reconnectDelays (map ConsoleError errs) = []"
  by (induction errs) simp_all

lemma step_reconnectAttempts:
  "reconnectAttempts (step e st ev) =
     (case ev of
        WsOpened \<Rightarrow> 0
      | WsClosed \<Rightarrow> reconnectAttempts st + 1
      | Start gatewayOk \<Rightarrow>
          if ws st \<noteq> None \<or> isConnecting st \<or> gatewayOk then reconnectAttempts st
          else reconnectAttempts st + 1
      | ReconnectTimer gatewayOk \<Rightarrow>
          if reconnectTimeout st = None \<or> ws st \<noteq> None \<or> isConnecting st \<or> gatewayOk
          then reconnectAttempts st else reconnectAttempts st + 1
      | _ \<Rightarrow> reconnectAttempts st)"
  by (cases ev)
     (simp_all add: connectToGateway_reconnectAttempts onOpen_def onError_def sendHeartbeat_def
        alarm_def scheduleNextSummary_def)

lemma step_quiet:
  assumes "ev \<noteq> WsOpened" "ev \<noteq> Start False" "ev \<noteq> ReconnectTimer False"
  shows "reconnectAttempts (step e st ev) = reconnectAttempts st + (if isClose ev then 1 else 0)"
    and "\<exists>new. effects (step e st ev) = effects st @ new \<and>
           reconnectDelays new = (if isClose ev then [backoffDelay (reconnectAttempts st + 1)] else [])"
proof -
  show "reconnectAttempts (step e st ev) = reconnectAttempts st + (if isClose ev then 1 else 0)"
    unfolding step_reconnectAttempts using assms by (cases ev) auto
  show "\<exists>new. effects (step e st ev) = effects st @ new \<and>
           reconnectDelays new = (if isClose ev then [backoffDelay (reconnectAttempts st + 1)] else [])"
  proof (cases ev)
    case (Start gatewayOk)
    with assms show ?thesis by (simp add: connectToGateway_effects)
  next
    case (ReconnectTimer gatewayOk)
    with assms show ?thesis by (simp add: connectToGateway_effects)
  next
    case WsOpened
    with assms show ?thesis by simp
  next
    case (WsMessage data now1 now2)
    then show ?thesis by (simp add: handleGatewayMessage_effects)
  next
    case WsErrored
    then show ?thesis by (simp add: onError_def)
  next
    case WsClosed
    then show ?thesis by (simp add: onClose_effects reconnectDelays_append)
  next
    case HeartbeatTick
    then show ?thesis by (simp add: sendHeartbeat_def)
  next
    case (Alarm toLocaleTimeString respond now1 now2 now3)
    obtain reqs errs where "effects (alarm e toLocaleTimeString respond now1 now2 now3 st) =
        effects st @ map Http reqs @ map ConsoleError errs @ [SetAlarm (nextSummary e now2 now3)]"
      using alarm_effects by blast
    with Alarm show ?thesis by (simp add: reconnectDelays_append)
  qed
qed

lemma run_quiet:
  "\<forall>ev\<in>set evs. ev \<noteq> WsOpened \<and> ev \<noteq> Start False \<and> ev \<noteq> ReconnectTimer False \<Longrightarrow>
   \<exists>new. effects (run e st evs) = effects st @ new \<and>
     reconnectDelays new =
       map backoffDelay [reconnectAttempts st + 1 ..< reconnectAttempts st + 1 + length (filter isClose evs)]"
proof (induction evs arbitrary: st)
  case Nil
  then show ?case by (simp add: run_def)
next
  case (Cons ev evs)
  then have q: "ev \<noteq> WsOpened" "ev \<noteq> Start False" "ev \<noteq> ReconnectTimer False" by simp_all
  obtain new1 where n1: "effects (step e st ev) = effects st @ new1"
    "reconnectDelays new1 = (if isClose ev then [backoffDelay (reconnectAttempts st + 1)] else [])"
    using step_quiet(2)[OF q] by blast
  have k: "reconnectAttempts (step e st ev) = reconnectAttempts st + (if isClose ev then 1 else 0)"
    using step_quiet(1)[OF q] .
  from Cons.prems have "\<forall>ev\<in>set evs. ev \<noteq> WsOpened \<and> ev \<noteq> Start False \<and> ev \<noteq> ReconnectTimer False"
    by simp
  from Cons.IH[OF this, of "step e st ev"] obtain new2 where n2:
    "effects (run e (step e st ev) evs) = effects (step e st ev) @ new2"
    "reconnectDelays new2 = map backoffDelay
       [reconnectAttempts (step e st ev) + 1 ..<
        reconnectAttempts (step e st ev) + 1 + length (filter isClose evs)]"
    by blast
  have "effects (run e st (ev # evs)) = effects st @ (new1 @ new2)"
    using n1(1) n2(1) by (simp add: run_Cons)
  moreover have "reconnectDelays (new1 @ new2) =
      map backoffDelay [reconnectAttempts st + 1 ..<
        reconnectAttempts st + 1 + length (filter isClose (ev # evs))]"
  proof (cases "isClose ev")
    case False
    with n1(2) n2(2) k show ?thesis by (simp add: reconnectDelays_append)
  next
    case True
    let ?k = "reconnectAttempts st + 1" and ?n = "length (filter isClose evs)"
    have "[?k ..< ?k + Suc ?n] = ?k # [Suc ?k ..< ?k + Suc ?n]"
      by (rule upt_conv_Cons) simp
    moreover have "reconnectDelays (new1 @ new2) = backoffDelay ?k # map backoffDelay [Suc ?k ..< Suc ?k + ?n]"
      using True n1(2) n2(2) k by (simp add: reconnectDelays_append)
    ultimately show ?thesis using True by simp
  qed
  ultimately show ?case by blast
qed

lemma step_schedules:
  assumes "ev \<noteq> WsOpened"
  shows "\<exists>new. effects (step e st ev) = effects st @ new \<and>
           (reconnectDelays new = [] \<and> reconnectAttempts (step e st ev) = reconnectAttempts st \<or>
            reconnectDelays new = [backoffDelay (reconnectAttempts st + 1)] \<and>
            reconnectAttempts (step e st ev) = reconnectAttempts st + 1)"
proof (cases ev)
  case (Start gatewayOk)
  then show ?thesis by (simp add: connectToGateway_effects connectToGateway_reconnectAttempts)
next
  case (ReconnectTimer gatewayOk)
  then show ?thesis by (simp add: connectToGateway_effects connectToGateway_reconnectAttempts)
next
  case WsOpened
  with assms show ?thesis by simp
next
  case (WsMessage data now1 now2)
  then show ?thesis by (simp add: handleGatewayMessage_effects)
next
  case WsErrored
  then show ?thesis by (simp add: onError_def)
next
  case WsClosed
  then show ?thesis by (simp add: onClose_effects reconnectDelays_append)
next
  case HeartbeatTick
  then show ?thesis by (simp add: sendHeartbeat_def)
next
  case (Alarm toLocaleTimeString respond now1 now2 now3)
  obtain reqs errs where "effects (alarm e toLocaleTimeString respond now1 now2 now3 st) =
      effects st @ map Http reqs @ map ConsoleError errs @ [SetAlarm (nextSummary e now2 now3)]"
    using alarm_effects by blast
  with Alarm show ?thesis by (simp add: reconnectDelays_append alarm_def scheduleNextSummary_def)
qed

lemma run_schedules:
  "\<forall>ev\<in>set evs. ev \<noteq> WsOpened \<Longrightarrow>
   \<exists>new. effects (run e st evs) = effects st @ new \<and>
     reconnectDelays new =
       map backoffDelay [reconnectAttempts st + 1 ..< reconnectAttempts st + 1 + length (reconnectDelays new)]"
proof (induction evs arbitrary: st)
  case Nil
  then show ?case by (simp add: run_def)
next
  case (Cons ev evs)
  then have q: "ev \<noteq> WsOpened" by simp
  obtain new1 where n1: "effects (step e st ev) = effects st @ new1"
    "reconnectDelays new1 = [] \<and> reconnectAttempts (step e st ev) = reconnectAttempts st \<or>
     reconnectDelays new1 = [backoffDelay (reconnectAttempts st + 1)] \<and>
     reconnectAttempts (step e st ev) = reconnectAttempts st + 1"
    using step_schedules[OF q] by blast
  from Cons.prems have "\<forall>ev\<in>set evs. ev \<noteq> WsOpened" by simp
  from Cons.IH[OF this, of "step e st ev"] obtain new2 where n2:
    "effects (run e (step e st ev) evs) = effects (step e st ev) @ new2"
    "reconnectDelays new2 = map backoffDelay
       [reconnectAttempts (step e st ev) + 1 ..<
        reconnectAttempts (step e st ev) + 1 + length (reconnectDelays new2)]"
    by blast
  have e: "effects (run e st (ev # evs)) = effects st @ (new1 @ new2)"
    using n1(1) n2(1) by (simp add: run_Cons)
  have "reconnectDelays (new1 @ new2) =
      map backoffDelay [reconnectAttempts st + 1 ..<
        reconnectAttempts st + 1 + length (reconnectDelays (new1 @ new2))]"
    using n1(2)
  proof
    assume "reconnectDelays new1 = [] \<and> reconnectAttempts (step e st ev) = reconnectAttempts st"
    with n2(2) show ?thesis by (simp add: reconnectDelays_append)
  next
    assume a: "reconnectDelays new1 = [backoffDelay (reconnectAttempts st + 1)] \<and>
      reconnectAttempts (step e st ev) = reconnectAttempts st + 1"
    let ?k = "reconnectAttempts st + 1" and ?n = "length (reconnectDelays new2)"
    have "[?k ..< ?k + Suc ?n] = ?k # [Suc ?k ..< ?k + Suc ?n]"
      by (rule upt_conv_Cons) simp
    moreover have "reconnectDelays (new1 @ new2) = backoffDelay ?k # map backoffDelay [Suc ?k ..< Suc ?k + ?n]"
      using a n2(2) by (simp add: reconnectDelays_append)
    moreover have "length (reconnectDelays (new1 @ new2)) = Suc ?n"
      using a by (simp add: reconnectDelays_append)
    ultimately show ?thesis by simp
  qed
  with e show ?case by blast
qed

text \<open>
  C4, as stated, fails: a socket that opens resets the counter although the session has
  not received READY. In three connections in a row whose socket opens and is closed
  before any frame arrives, so that there is no session id, each of the three closes
  schedules 5000 milliseconds, where the claim has 10000 for the second.
\<close>

theorem backoff_restarts_counterexample:
  "length (filter isClose open_close_rounds) = 3 \<and>
   reconnectDelays (newEffects constructor (run env0 constructor open_close_rounds)) = [5000, 5000, 5000] \<and>
   sessionId (run env0 constructor open_close_rounds) = None \<and>
   min (5000 * 2 ^ (2 - 1)) 60000 = (10000 :: nat)"
  by (simp add: open_close_rounds_def run_def connectToGateway_def onClose_def onOpen_def cleanup_def
        scheduleReconnect_def backoffDelay_def constructor_def emit_def newEffects_def Let_def)

text \<open>
  C4, amended: from a state with the counter at zero, in a run in which no socket opens,
  the reconnection delays scheduled are, in order, \<open>min (5000 * 2 ^ (n - 1)) 60000\<close>
  milliseconds for \<open>n\<close> from 1 on; if moreover no gateway request fails, there is
  one delay for each close.
\<close>

theorem backoff_delay_sequence:
  assumes "reconnectAttempts st = 0" and "\<forall>ev\<in>set evs. ev \<noteq> WsOpened"
  shows "reconnectDelays (newEffects st (run e st evs)) =
           map (\<lambda>n. min (5000 * 2 ^ (n - 1)) 60000)
             [1 ..< Suc (length (reconnectDelays (newEffects st (run e st evs))))]
         \<and> ((\<forall>ev\<in>set evs. ev \<noteq> Start False \<and> ev \<noteq> ReconnectTimer False) \<longrightarrow>
              length (reconnectDelays (newEffects st (run e st evs))) = length (filter isClose evs))"
proof (intro conjI impI)
  obtain new where new: "effects (run e st evs) = effects st @ new"
    "reconnectDelays new =
       map backoffDelay [reconnectAttempts st + 1 ..< reconnectAttempts st + 1 + length (reconnectDelays new)]"
    using run_schedules[OF assms(2)] by blast
  have n: "newEffects st (run e st evs) = new" by (simp add: newEffects_def new(1))
  have b: "backoffDelay = (\<lambda>n. min (5000 * 2 ^ (n - 1)) 60000)"
    by (rule ext) (simp add: backoffDelay_def)
  from new(2) have "reconnectDelays new = map backoffDelay [1 ..< Suc (length (reconnectDelays new))]"
    using assms(1) by simp
  then show "reconnectDelays (newEffects st (run e st evs)) =
           map (\<lambda>n. min (5000 * 2 ^ (n - 1)) 60000)
             [1 ..< Suc (length (reconnectDelays (newEffects st (run e st evs))))]"
    unfolding n b .
next
  assume "\<forall>ev\<in>set evs. ev \<noteq> Start False \<and> ev \<noteq> ReconnectTimer False"
  with assms(2) have "\<forall>ev\<in>set evs. ev \<noteq> WsOpened \<and> ev \<noteq> Start False \<and> ev \<noteq> ReconnectTimer False"
    by blast
  from run_quiet[OF this] obtain new where new: "effects (run e st evs) = effects st @ new"
    "reconnectDelays new =
       map backoffDelay [reconnectAttempts st + 1 ..< reconnectAttempts st + 1 + length (filter isClose evs)]"
    by blast
  have n: "newEffects st (run e st evs) = new" by (simp add: newEffects_def new(1))
  have "length (reconnectDelays new) =
      length (map backoffDelay [reconnectAttempts st + 1 ..< reconnectAttempts st + 1 + length (filter isClose evs)])"
    by (simp only: new(2))
  also have "\<dots> = length (filter isClose evs)" by (simp del: upt_Suc)
  finally show "length (reconnectDelays (newEffects st (run e st evs))) = length (filter isClose evs)"
    unfolding n .
qed

theorem backoff_delay_sequence_witness:
  "reconnectAttempts constructor = 0 \<and> length (filter isClose five_closes) = 5 \<and>
   length (reconnectDelays (newEffects constructor (run env0 constructor five_closes))) = 5 \<and>
   reconnectDelays (newEffects constructor (run env0 constructor five_closes)) =
     [5000, 10000, 20000, 40000, 60000]"
proof -
  have a: "reconnectAttempts constructor = 0" by (simp add: constructor_def)
  have b: "\<forall>ev\<in>set five_closes. ev \<noteq> WsOpened" by (simp add: five_closes_def)
  have b': "\<forall>ev\<in>set five_closes. ev \<noteq> Start False \<and> ev \<noteq> ReconnectTimer False"
    by (simp add: five_closes_def)
  have c: "length (filter isClose five_closes) = 5" by (simp add: five_closes_def)
  have d: "map (\<lambda>n. min (5000 * 2 ^ (n - 1)) 60000) [1 ..< Suc 5] = [5000, 10000, 20000, 40000, 60000 :: nat]"
    by (simp add: upt_rec)
  note w = backoff_delay_sequence[OF a b, of env0]
  from w b' c have l: "length (reconnectDelays (newEffects constructor (run env0 constructor five_closes))) = 5"
    by simp
  from w have "reconnectDelays (newEffects constructor (run env0 constructor five_closes)) =
      map (\<lambda>n. min (5000 * 2 ^ (n - 1)) 60000) [1 ..< Suc 5]"
    unfolding l by blast
  with a c l d show ?thesis by simp
qed

text \<open>
  C6, as stated, fails: the counter is reset when the socket opens. After a connection
  that was closed and a second one that opens, the counter is 0 although no frame has
  arrived: no hello, no identify, no READY, and no session id.
\<close>

theorem reconnect_counter_reset_counterexample:
  "reconnectAttempts (run env0 constructor [Start True, WsClosed, ReconnectTimer True]) = 1 \<and>
   reconnectAttempts (run env0 constructor close_then_open) = 0 \<and>
   sessionId (run env0 constructor close_then_open) = None \<and>
   effects (run env0 constructor close_then_open) =
     [Http GetGateway, NewWebSocket, SetTimeout 5000, Http GetGateway, NewWebSocket]"
  by (simp add: close_then_open_def run_def connectToGateway_def onClose_def onOpen_def cleanup_def
        scheduleReconnect_def backoffDelay_def constructor_def emit_def Let_def)

text \<open>
  C6, amended: every close increments the counter, the open event of the socket sets it
  to zero, and nothing else lowers it: not the connection attempt, not a frame, not a
  timer, not the alarm.
\<close>

theorem reconnect_counter_changes:
  "(isClose ev \<longrightarrow> reconnectAttempts (step e st ev) = reconnectAttempts st + 1) \<and>
   (reconnectAttempts (step e st ev) < reconnectAttempts st \<longrightarrow> ev = WsOpened) \<and>
   reconnectAttempts (step e st WsOpened) = 0"
  unfolding step_reconnectAttempts by (cases ev) (auto split: if_splits)

theorem reconnect_counter_changes_witness:
  "isClose WsClosed \<and>
   reconnectAttempts (step env0 (run env0 constructor [Start True]) WsClosed) =
     reconnectAttempts (run env0 constructor [Start True]) + 1 \<and>
   reconnectAttempts (step env0 (run env0 constructor [Start True, WsClosed, ReconnectTimer True]) WsOpened)
     < reconnectAttempts (run env0 constructor [Start True, WsClosed, ReconnectTimer True]) \<and>
   reconnectAttempts (step env0 (run env0 constructor [Start True, WsClosed, ReconnectTimer True]) WsOpened) = 0"
proof -
  have a: "isClose WsClosed" by simp
  have b: "reconnectAttempts (run env0 constructor [Start True, WsClosed, ReconnectTimer True]) = 1"
    by (simp add: run_def connectToGateway_def onClose_def cleanup_def
          scheduleReconnect_def backoffDelay_def constructor_def emit_def Let_def)
  from reconnect_counter_changes[of WsClosed env0 "run env0 constructor [Start True]"]
    reconnect_counter_changes[of WsOpened env0 "run env0 constructor [Start True, WsClosed, ReconnectTimer True]"]
    a b
  show ?thesis by simp
qed

end
